theory Spec2Isabelle
  imports Complex_Main "HOL-Library.Word"
begin

unbundle bit_operations_syntax

section \<open>Face flags, moves and errors\<close>

text \<open>
  The face flags of \<^verbatim>\<open>main.py\<close>: \<^verbatim>\<open>U, D, F, B, L, R = 1, 2, 4, 8, 16, 32\<close>.
  They are Python integers; the mask array built from them has dtype \<^verbatim>\<open>uint8\<close>.
\<close>

definition U :: int where "U = 1"
definition D :: int where "D = 2"
definition F :: int where "F = 4"
definition B :: int where "B = 8"
definition L :: int where "L = 16"
definition R :: int where "R = 32"

text \<open>
  The dataclass \<^verbatim>\<open>Move\<close>: an axis string, a slice index and a count of quarter turns.
  The fields are \<^verbatim>\<open>axis\<close>, \<^verbatim>\<open>index\<close> and \<^verbatim>\<open>k\<close>; the selectors carry the prefix
  \<open>move_\<close>.
\<close>

datatype move = Move (move_axis: string) (move_index: int) (move_k: int)

datatype error =
  AssertionError | ZeroDivisionError | ValueError | IndexError | TypeError | OverflowError

section \<open>Floating-point operations\<close>

text \<open>
  The rotation engine computes in IEEE doubles: \<^verbatim>\<open>math.pi\<close>, \<^verbatim>\<open>math.cos\<close>, \<^verbatim>\<open>math.sin\<close> and
  the rounded arithmetic of Python floats and NumPy \<^verbatim>\<open>float64\<close> arrays. They are library
  code, not code of this repository, and enter the model as parameters: \<open>rnd\<close> rounds
  the exact result of one arithmetic operation to the double that is stored, \<open>fcos\<close>
  and \<open>fsin\<close> are the library's cosine and sine, \<open>fpi\<close> is the constant \<^verbatim>\<open>math.pi\<close>,
  \<open>fmax\<close> is the largest finite double. Every arithmetic operation of the source on
  floats is written as \<open>rnd\<close> of the exact operation on reals, where \<open>rnd\<close> rounds as
  if the exponent range had no upper end.
\<close>

record float_ops =
  rnd :: "real \<Rightarrow> real"
  fcos :: "real \<Rightarrow> real"
  fsin :: "real \<Rightarrow> real"
  fpi :: real
  fmax :: real

text \<open>
  Coordinates, pivots and angles stay far inside the range of a double and are reals.
  The speed of the animation and the quotient taken of it do not: they are values of
  the type of all Python floats, a finite double, an infinity or a NaN.
\<close>

datatype pyfloat = Finite real | PlusInf | MinusInf | NotANumber

text \<open>
  The double that an arithmetic operation stores for the rounded result \<open>x\<close>: beyond the
  largest finite double it is an infinity.
\<close>

definition store_double :: "float_ops \<Rightarrow> real \<Rightarrow> pyfloat" where
  "store_double fo x =
     (if fmax fo < x then PlusInf else if x < - fmax fo then MinusInf else Finite x)"

text \<open>
  The conversion of a Python \<^verbatim>\<open>int\<close> to a float, as it happens when an \<^verbatim>\<open>int\<close> meets a
  float in an arithmetic operation: an integer beyond the range raises.
\<close>

definition int_to_float :: "float_ops \<Rightarrow> int \<Rightarrow> error + real" where
  "int_to_float fo a =
     (let x = rnd fo (of_int a)
      in if fmax fo < \<bar>x\<bar> then Inl OverflowError else Inr x)"

text \<open>
  \<^verbatim>\<open>a / b\<close> for an \<^verbatim>\<open>int\<close> \<open>a\<close> and a float \<open>b\<close>: the integer is converted, a zero divisor
  raises, a quotient beyond the range is an infinity, an infinite divisor gives zero and
  a NaN gives a NaN.
\<close>

definition int_div_float :: "float_ops \<Rightarrow> int \<Rightarrow> pyfloat \<Rightarrow> error + pyfloat" where
  "int_div_float fo a b =
     (case int_to_float fo a of
        Inl e \<Rightarrow> Inl e
      | Inr x \<Rightarrow>
          (case b of
             Finite v \<Rightarrow>
               if v = 0 then Inl ZeroDivisionError
               else Inr (store_double fo (rnd fo (x / v)))
           | PlusInf \<Rightarrow> Inr (Finite 0)
           | MinusInf \<Rightarrow> Inr (Finite 0)
           | NotANumber \<Rightarrow> Inr NotANumber))"

text \<open>\<^verbatim>\<open>np.rint\<close>: round to the nearest integer, a tie to the even neighbour.\<close>

definition rint :: "real \<Rightarrow> int" where
  "rint v =
     (let f = \<lfloor>v\<rfloor>; r = v - of_int f
      in if r < 1 / 2 then f else if 1 / 2 < r then f + 1
         else if even f then f else f + 1)"

text \<open>
  \<^verbatim>\<open>astype(np.int16)\<close> and \<^verbatim>\<open>np.array(..., dtype=np.int16)\<close>: the value is stored in
  sixteen bits, two's complement.
\<close>

definition to_int16 :: "int \<Rightarrow> int" where
  "to_int16 v = sint (word_of_int v :: 16 word)"

section \<open>The lattice: class VoxelRubiks\<close>

type_synonym point = "int \<times> int \<times> int"

text \<open>
  The attributes of \<^verbatim>\<open>VoxelRubiks\<close>. The attribute \<^verbatim>\<open>n\<close> is the field \<open>cube_n\<close>.
\<close>

record voxel_rubiks =
  cube_n :: int
  half :: real
  coords :: "point list"
  masks :: "8 word list"
  solved :: "point list"
  history :: "move list"

text \<open>The test \<^verbatim>\<open>x in (0,n-1) or y in (0,n-1) or z in (0,n-1)\<close> of the constructor.\<close>

definition on_shell :: "int \<Rightarrow> point \<Rightarrow> bool" where
  "on_shell n p =
     (case p of (x, y, z) \<Rightarrow>
        (x = 0 \<or> x = n - 1) \<or> (y = 0 \<or> y = n - 1) \<or> (z = 0 \<or> z = n - 1))"

text \<open>The six \<^verbatim>\<open>mask |= ...\<close> statements of the constructor, in their order.\<close>

definition face_mask :: "int \<Rightarrow> point \<Rightarrow> int" where
  "face_mask n p =
     (case p of (x, y, z) \<Rightarrow>
        (let m0 = 0;
             m1 = (if z = 0 then m0 OR U else m0);
             m2 = (if z = n - 1 then m1 OR D else m1);
             m3 = (if y = 0 then m2 OR F else m2);
             m4 = (if y = n - 1 then m3 OR B else m3);
             m5 = (if x = 0 then m4 OR L else m4);
             m6 = (if x = n - 1 then m5 OR R else m5)
         in m6))"

text \<open>
  The three nested loops \<^verbatim>\<open>for z / for y / for x in range(n)\<close>: the cells that pass the
  shell test, in the order in which they are appended.
\<close>

definition shell_cells :: "int \<Rightarrow> point list" where
  "shell_cells n =
     concat (map (\<lambda>z. concat (map (\<lambda>y. concat (map (\<lambda>x.
        if on_shell n (x, y, z) then [(x, y, z)] else []) [0..n - 1])) [0..n - 1])) [0..n - 1])"

definition store_int16 :: "point \<Rightarrow> point" where
  "store_int16 p = (case p of (x, y, z) \<Rightarrow> (to_int16 x, to_int16 y, to_int16 z))"

text \<open>
  \<^verbatim>\<open>VoxelRubiks.__init__\<close>. The \<^verbatim>\<open>assert\<close> is the only check of the source; \<^verbatim>\<open>n\<close> is an
  \<open>int\<close> here, so the \<^verbatim>\<open>isinstance\<close> half of it holds. The conversion
  \<^verbatim>\<open>np.array(self.coords, dtype=np.int16)\<close> raises \<^verbatim>\<open>OverflowError\<close> when a coordinate does
  not fit sixteen bits, which is when the largest one, \<open>n - 1\<close>, exceeds \<open>32767\<close>.
\<close>

definition construct :: "float_ops \<Rightarrow> int \<Rightarrow> error + voxel_rubiks" where
  "construct fo n =
     (if \<not> 2 \<le> n then Inl AssertionError
      else if 32767 < n - 1 then Inl OverflowError
      else
        (let cs = map store_int16 (shell_cells n)
         in Inr \<lparr> cube_n = n,
                  half = rnd fo (of_int (n - 1) / 2),
                  coords = cs,
                  masks = map (\<lambda>p. word_of_int (face_mask n p)) (shell_cells n),
                  solved = cs,
                  history = [] \<rparr>))"

text \<open>\<^verbatim>\<open>reset\<close>: the coordinates are overwritten with the snapshot, the history is cleared.\<close>

definition reset :: "voxel_rubiks \<Rightarrow> voxel_rubiks" where
  "reset m = m\<lparr>coords := solved m, history := []\<rparr>"

text \<open>
  \<^verbatim>\<open>inverse_history\<close>: the loop over \<^verbatim>\<open>reversed(self.history)\<close>. Python's \<^verbatim>\<open>%\<close> with a
  positive modulus agrees with \<open>mod\<close> on \<open>int\<close>.
\<close>

fun inverse_moves :: "move list \<Rightarrow> move list" where
  "inverse_moves [] = []"
| "inverse_moves (m # ms) =
     (let inv_k = (4 - (move_k m mod 4)) mod 4
      in if inv_k \<noteq> 0 then Move (move_axis m) (move_index m) inv_k # inverse_moves ms
         else inverse_moves ms)"

definition inverse_history :: "voxel_rubiks \<Rightarrow> move list" where
  "inverse_history m = inverse_moves (rev (history m))"

text \<open>
  \<^verbatim>\<open>_slice_mask\<close>: one boolean per cubelet. An axis that is neither \<^verbatim>\<open>'x'\<close> nor \<^verbatim>\<open>'y'\<close>
  takes the last branch.
\<close>

definition slice_mask :: "voxel_rubiks \<Rightarrow> string \<Rightarrow> int \<Rightarrow> bool list" where
  "slice_mask m ax idx =
     (if ax = ''x'' then map (\<lambda>(x, y, z). x = idx) (coords m)
      else if ax = ''y'' then map (\<lambda>(x, y, z). y = idx) (coords m)
      else map (\<lambda>(x, y, z). z = idx) (coords m))"

text \<open>
  The body of \<^verbatim>\<open>_rotate_slice_90\<close> for one selected row: subtract \<^verbatim>\<open>half\<close>, rotate the two
  coordinates of the axis, add \<^verbatim>\<open>half\<close>, \<^verbatim>\<open>np.rint\<close>, store as \<^verbatim>\<open>int16\<close>.
\<close>

definition rotate_point ::
  "float_ops \<Rightarrow> real \<Rightarrow> string \<Rightarrow> real \<Rightarrow> real \<Rightarrow> point \<Rightarrow> point" where
  "rotate_point fo h ax c s p =
     (case p of (x, y, z) \<Rightarrow>
        (let px = rnd fo (of_int x - h);
             py = rnd fo (of_int y - h);
             pz = rnd fo (of_int z - h);
             (qx, qy, qz) =
               (if ax = ''x'' then
                  (px,
                   rnd fo (rnd fo (c * py) - rnd fo (s * pz)),
                   rnd fo (rnd fo (s * py) + rnd fo (c * pz)))
                else if ax = ''y'' then
                  (rnd fo (rnd fo (c * px) + rnd fo (s * pz)),
                   py,
                   rnd fo (rnd fo ((- s) * px) + rnd fo (c * pz)))
                else
                  (rnd fo (rnd fo (c * px) - rnd fo (s * py)),
                   rnd fo (rnd fo (s * px) + rnd fo (c * py)),
                   pz))
         in (to_int16 (rint (rnd fo (qx + h))),
             to_int16 (rint (rnd fo (qy + h))),
             to_int16 (rint (rnd fo (qz + h))))))"

text \<open>The angle \<^verbatim>\<open>dir_sign * (math.pi/2.0)\<close>.\<close>

definition quarter_angle :: "float_ops \<Rightarrow> int \<Rightarrow> real" where
  "quarter_angle fo d = rnd fo (of_int d * rnd fo (fpi fo / 2))"

text \<open>
  \<^verbatim>\<open>_rotate_slice_90\<close>: the rows selected by the mask are replaced by their rotated and
  re-snapped values, the other rows stay.
\<close>

definition rotate_slice_90 ::
  "float_ops \<Rightarrow> voxel_rubiks \<Rightarrow> string \<Rightarrow> int \<Rightarrow> int \<Rightarrow> voxel_rubiks" where
  "rotate_slice_90 fo m ax idx d =
     (let mask = slice_mask m ax idx;
          a = quarter_angle fo d;
          c = fcos fo a;
          s = fsin fo a
      in m\<lparr>coords :=
             map (\<lambda>(sel, p). if sel then rotate_point fo (half m) ax c s p else p)
               (zip mask (coords m))\<rparr>)"


section \<open>Scrambling\<close>

text \<open>
  The module \<^verbatim>\<open>random\<close> is library code with one ambient generator state. The state
  is passed explicitly, and the two operations the program reaches are parameters:
  \<open>seed_rng\<close> is \<^verbatim>\<open>random.seed\<close> on an integer, \<open>randbelow\<close> is the generator's
  \<^verbatim>\<open>_randbelow\<close>, on which \<^verbatim>\<open>random.choice\<close> and \<^verbatim>\<open>random.randint\<close> are built.
\<close>

record 'g rng_ops =
  seed_rng :: "int \<Rightarrow> 'g"
  randbelow :: "nat \<Rightarrow> 'g \<Rightarrow> nat \<times> 'g"

definition choice :: "'g rng_ops \<Rightarrow> 'a list \<Rightarrow> 'g \<Rightarrow> error + ('a \<times> 'g)" where
  "choice ro xs g =
     (if xs = [] then Inl IndexError
      else
        (let (i, g') = randbelow ro (length xs) g
         in if i < length xs then Inr (xs ! i, g') else Inl IndexError))"

definition randint :: "'g rng_ops \<Rightarrow> int \<Rightarrow> int \<Rightarrow> 'g \<Rightarrow> error + (int \<times> 'g)" where
  "randint ro a b g =
     (if b + 1 - a \<le> 0 then Inl ValueError
      else
        (let (i, g') = randbelow ro (nat (b + 1 - a)) g
         in Inr (a + int i, g')))"

text \<open>The loop \<^verbatim>\<open>for _ in range(moves)\<close> of \<^verbatim>\<open>scramble\<close>, with the sequence built so far.\<close>

fun scramble_loop ::
  "'g rng_ops \<Rightarrow> int \<Rightarrow> nat \<Rightarrow> move list \<Rightarrow> 'g \<Rightarrow> error + (move list \<times> 'g)" where
  "scramble_loop ro n 0 seq g = Inr (seq, g)"
| "scramble_loop ro n (Suc cnt) seq g =
     (case choice ro [''x'', ''y'', ''z''] g of
        Inl e \<Rightarrow> Inl e
      | Inr (ax, g1) \<Rightarrow>
          (case randint ro 0 (n - 1) g1 of
             Inl e \<Rightarrow> Inl e
           | Inr (idx, g2) \<Rightarrow>
               (case choice ro [1, 2, 3] g2 of
                  Inl e \<Rightarrow> Inl e
                | Inr (k, g3) \<Rightarrow> scramble_loop ro n cnt (seq @ [Move ax idx k]) g3)))"

text \<open>
  \<^verbatim>\<open>scramble\<close>: reseeds the generator when a seed is given, draws the moves, extends the
  history and returns the sequence. \<^verbatim>\<open>range(moves)\<close> is empty for \<^verbatim>\<open>moves\<close> below 1.
\<close>

definition scramble ::
  "'g rng_ops \<Rightarrow> voxel_rubiks \<Rightarrow> int \<Rightarrow> int option \<Rightarrow> 'g
     \<Rightarrow> error + (move list \<times> voxel_rubiks \<times> 'g)" where
  "scramble ro m moves seed g =
     (let g0 = (case seed of None \<Rightarrow> g | Some sd \<Rightarrow> seed_rng ro sd)
      in case scramble_loop ro (cube_n m) (nat moves) [] g0 of
           Inl e \<Rightarrow> Inl e
         | Inr (seq, g') \<Rightarrow> Inr (seq, m\<lparr>history := history m @ seq\<rparr>, g'))"

text \<open>
  A Python string is a sequence of code points. \<^verbatim>\<open>str.strip()\<close> removes the leading and
  the trailing characters for which \<^verbatim>\<open>str.isspace\<close> holds; \<open>is_space\<close> lists them.
\<close>

type_synonym pystr = "nat list"

definition is_space :: "nat \<Rightarrow> bool" where
  "is_space c \<longleftrightarrow>
     (9 \<le> c \<and> c \<le> 13) \<or> (28 \<le> c \<and> c \<le> 32) \<or> c = 133 \<or> c = 160 \<or> c = 5760 \<or>
     (8192 \<le> c \<and> c \<le> 8202) \<or> c = 8232 \<or> c = 8233 \<or> c = 8239 \<or> c = 8287 \<or> c = 12288"

definition strip :: "pystr \<Rightarrow> pystr" where
  "strip t = rev (dropWhile is_space (rev (dropWhile is_space t)))"

text \<open>
  The hash loop of \<^verbatim>\<open>on_scramble_clicked\<close> on Python integers:
  \<^verbatim>\<open>h ^= ord(ch); h = (h * 16777619) & 0xffffffff\<close>, from \<^verbatim>\<open>h = 2166136261\<close>.
\<close>

definition fnv1a :: "pystr \<Rightarrow> int" where
  "fnv1a t = fold (\<lambda>ch h. ((h XOR int ch) * 16777619) AND 4294967295) t 2166136261"

text \<open>The seed that \<^verbatim>\<open>on_scramble_clicked\<close> passes on: \<^verbatim>\<open>None\<close> when the stripped text is empty.\<close>

definition derive_seed :: "pystr \<Rightarrow> int option" where
  "derive_seed t =
     (let seed_text = strip t
      in if seed_text \<noteq> [] then Some (fnv1a seed_text) else None)"

section \<open>Display colours\<close>

text \<open>
  A \<^verbatim>\<open>QColor\<close> is either built from a hexadecimal name, kept as its three channel bytes,
  or set by \<^verbatim>\<open>setRgbF\<close> from four floats.
\<close>

datatype qcolor = FromHex int int int | FromRgbF real real real real

definition face_colors :: "(int \<times> qcolor) list" where
  "face_colors =
     [(U, FromHex 255 214 10), (D, FromHex 255 255 255), (F, FromHex 0 166 81),
      (B, FromHex 0 87 255), (L, FromHex 255 140 0), (R, FromHex 255 0 48)]"

fun redF :: "float_ops \<Rightarrow> qcolor \<Rightarrow> real" where
  "redF fo (FromHex r g b) = rnd fo (of_int r / 255)"
| "redF fo (FromRgbF r g b a) = r"

fun greenF :: "float_ops \<Rightarrow> qcolor \<Rightarrow> real" where
  "greenF fo (FromHex r g b) = rnd fo (of_int g / 255)"
| "greenF fo (FromRgbF r g b a) = g"

fun blueF :: "float_ops \<Rightarrow> qcolor \<Rightarrow> real" where
  "blueF fo (FromHex r g b) = rnd fo (of_int b / 255)"
| "blueF fo (FromRgbF r g b a) = b"

text \<open>
  The loop of \<^verbatim>\<open>blend_colors\<close> over the dictionary in insertion order; the state is
  \<^verbatim>\<open>(rs, gs, bs, cnt)\<close>.
\<close>

definition blend_step ::
  "float_ops \<Rightarrow> int \<Rightarrow> int \<times> qcolor \<Rightarrow> real \<times> real \<times> real \<times> int
     \<Rightarrow> real \<times> real \<times> real \<times> int" where
  "blend_step fo bits e acc =
     (case e of (flag, col) \<Rightarrow>
        (case acc of (rs, gs, bs, cnt) \<Rightarrow>
           if bits AND flag \<noteq> 0
           then (rnd fo (rs + redF fo col), rnd fo (gs + greenF fo col),
                 rnd fo (bs + blueF fo col), cnt + 1)
           else acc))"

definition blend_sums :: "float_ops \<Rightarrow> int \<Rightarrow> real \<times> real \<times> real \<times> int" where
  "blend_sums fo bits = fold (blend_step fo bits) face_colors (0, 0, 0, 0)"

definition blend_colors :: "float_ops \<Rightarrow> int \<Rightarrow> qcolor" where
  "blend_colors fo bits =
     (case blend_sums fo bits of (rs, gs, bs, cnt) \<Rightarrow>
        if cnt = 0 then FromHex 17 17 17
        else
          (let r = max 0 (min 1 (rnd fo (rs / of_int cnt)));
               g = max 0 (min 1 (rnd fo (gs / of_int cnt)));
               b = max 0 (min 1 (rnd fo (bs / of_int cnt)))
           in FromRgbF r g b 1))"

section \<open>The scene: class VoxelQtScene\<close>

type_synonym vec3 = "real \<times> real \<times> real"

text \<open>A \<^verbatim>\<open>CubeletEntity\<close>: the translation and the scale of its transform, and its colour.\<close>

record cubelet_entity =
  translation :: vec3
  scale :: real
  color :: qcolor

text \<open>
  The attributes of \<^verbatim>\<open>VoxelQtScene\<close> that the handlers and the timer callback read or
  write. The attributes \<^verbatim>\<open>n\<close> and \<^verbatim>\<open>half\<close> are the fields \<open>scene_n\<close> and \<open>scene_half\<close>.
\<close>

record voxel_qt_scene =
  scene_n :: int
  model :: voxel_rubiks
  scene_half :: real
  cubelets :: "cubelet_entity list"
  queue :: "(string \<times> int \<times> int) list"
  animating :: bool
  frame :: int
  frames_per_turn :: int
  speed :: pyfloat
  current_move :: "(string \<times> int \<times> int) option"
  moving_indices :: "nat list option"

text \<open>The position \<^verbatim>\<open>(x-self.half, y-self.half, z-self.half)\<close> of a cubelet at rest.\<close>

definition rest_point :: "float_ops \<Rightarrow> real \<Rightarrow> point \<Rightarrow> vec3" where
  "rest_point fo h p =
     (case p of (x, y, z) \<Rightarrow>
        (rnd fo (of_int x - h), rnd fo (of_int y - h), rnd fo (of_int z - h)))"

text \<open>\<^verbatim>\<open>VoxelQtScene.__init__\<close>, without the widgets, the camera and the light.\<close>

definition new_scene :: "float_ops \<Rightarrow> int \<Rightarrow> error + voxel_qt_scene" where
  "new_scene fo n =
     (case construct fo n of
        Inl e \<Rightarrow> Inl e
      | Inr m \<Rightarrow>
          (let h = rnd fo (of_int (n - 1) / 2)
           in Inr \<lparr> scene_n = n,
                    model = m,
                    scene_half = h,
                    cubelets =
                      map (\<lambda>(p, mask).
                             \<lparr> translation = rest_point fo h p,
                               scale = rnd fo (92 / 100),
                               color = blend_colors fo (uint mask) \<rparr>)
                        (zip (coords m) (masks m)),
                    queue = [],
                    animating = False,
                    frame = 0,
                    frames_per_turn = 12,
                    speed = Finite 1,
                    current_move = None,
                    moving_indices = None \<rparr>))"

text \<open>
  \<^verbatim>\<open>on_speed_changed\<close>: \<^verbatim>\<open>0.25 + (value-1) * (3.75/49.0)\<close>. The integer \<^verbatim>\<open>value-1\<close> is
  converted for the product; an infinite product stays infinite in the sum.
\<close>

definition on_speed_changed ::
  "float_ops \<Rightarrow> int \<Rightarrow> voxel_qt_scene \<Rightarrow> error + voxel_qt_scene" where
  "on_speed_changed fo v s =
     (case int_to_float fo (v - 1) of
        Inl e \<Rightarrow> Inl e
      | Inr x \<Rightarrow>
          (case store_double fo (rnd fo (x * rnd fo ((375 / 100) / 49))) of
             Finite p \<Rightarrow> Inr (s\<lparr>speed := store_double fo (rnd fo (1 / 4 + p))\<rparr>)
           | PlusInf \<Rightarrow> Inr (s\<lparr>speed := PlusInf\<rparr>)
           | MinusInf \<Rightarrow> Inr (s\<lparr>speed := MinusInf\<rparr>)
           | NotANumber \<Rightarrow> Inr (s\<lparr>speed := NotANumber\<rparr>)))"

text \<open>
  \<^verbatim>\<open>enqueue_move\<close>: \<^verbatim>\<open>steps = k % 4\<close> unit turns of direction \<^verbatim>\<open>+1\<close> go to the end of the
  queue; with \<^verbatim>\<open>record\<close> set, \<^verbatim>\<open>Move(axis, index, steps)\<close> is appended to the history.
\<close>

definition enqueue_move ::
  "voxel_qt_scene \<Rightarrow> string \<Rightarrow> int \<Rightarrow> int \<Rightarrow> bool \<Rightarrow> voxel_qt_scene" where
  "enqueue_move s ax idx k record =
     (let steps = k mod 4;
          s1 = s\<lparr>queue := queue s @ replicate (nat steps) (ax, idx, 1)\<rparr>
      in if record
         then s1\<lparr>model := (model s1)\<lparr>history := history (model s1) @ [Move ax idx steps]\<rparr>\<rparr>
         else s1)"

text \<open>
  \<^verbatim>\<open>on_turn_clicked\<close>: the three widget values are the arguments; the combo box index
  plus one is the count of quarter turns.
\<close>

definition on_turn_clicked ::
  "voxel_qt_scene \<Rightarrow> string \<Rightarrow> int \<Rightarrow> int \<Rightarrow> voxel_qt_scene" where
  "on_turn_clicked s ax idx k_index = enqueue_move s ax idx (k_index + 1) True"

definition enqueue_all :: "voxel_qt_scene \<Rightarrow> move list \<Rightarrow> voxel_qt_scene" where
  "enqueue_all s ms =
     fold (\<lambda>m acc. enqueue_move acc (move_axis m) (move_index m) (move_k m) False) ms s"

text \<open>
  \<^verbatim>\<open>on_scramble_clicked\<close>: the spin box value and the line edit text are the arguments.
\<close>

definition on_scramble_clicked ::
  "'g rng_ops \<Rightarrow> int \<Rightarrow> pystr \<Rightarrow> voxel_qt_scene \<Rightarrow> 'g \<Rightarrow> error + (voxel_qt_scene \<times> 'g)" where
  "on_scramble_clicked ro moves text s g =
     (case scramble ro (model s) moves (derive_seed text) g of
        Inl e \<Rightarrow> Inl e
      | Inr (seq, m', g') \<Rightarrow> Inr (enqueue_all (s\<lparr>model := m'\<rparr>) seq, g'))"

text \<open>\<^verbatim>\<open>on_solve_clicked\<close>: the inverse sequence is queued, then the history is cleared.\<close>

definition on_solve_clicked :: "voxel_qt_scene \<Rightarrow> voxel_qt_scene" where
  "on_solve_clicked s =
     (let inv = inverse_history (model s);
          s1 = enqueue_all s inv
      in s1\<lparr>model := (model s1)\<lparr>history := []\<rparr>\<rparr>)"

text \<open>
  The loops that write cubelet positions: for each index \<open>i\<close> of the list, the entity
  \<open>i\<close> gets the position computed from row \<open>i\<close> of the coordinates. An index outside
  either sequence raises \<^verbatim>\<open>IndexError\<close>.
\<close>

fun show_points ::
  "(point \<Rightarrow> vec3) \<Rightarrow> point list \<Rightarrow> nat list \<Rightarrow> cubelet_entity list
     \<Rightarrow> error + cubelet_entity list" where
  "show_points f cs [] ents = Inr ents"
| "show_points f cs (i # rest) ents =
     (if i < length cs \<and> i < length ents
      then show_points f cs rest (ents[i := (ents ! i)\<lparr>translation := f (cs ! i)\<rparr>])
      else Inl IndexError)"

text \<open>\<^verbatim>\<open>on_reset_clicked\<close>.\<close>

definition on_reset_clicked :: "float_ops \<Rightarrow> voxel_qt_scene \<Rightarrow> error + voxel_qt_scene" where
  "on_reset_clicked fo s =
     (let s1 = s\<lparr>queue := [], animating := False, current_move := None\<rparr>;
          s2 = s1\<lparr>model := reset (model s1)\<rparr>
      in case show_points (rest_point fo (scene_half s2)) (coords (model s2))
                [0..<length (coords (model s2))] (cubelets s2) of
           Inl e \<Rightarrow> Inl e
         | Inr ents \<Rightarrow> Inr (s2\<lparr>cubelets := ents\<rparr>))"

text \<open>\<^verbatim>\<open>np.where(mask)[0]\<close>: the positions of the true entries, ascending.\<close>

definition np_where :: "bool list \<Rightarrow> nat list" where
  "np_where sel = filter (\<lambda>i. sel ! i) [0..<length sel]"

text \<open>\<^verbatim>\<open>_start_next_turn\<close>.\<close>

definition start_next_turn :: "voxel_qt_scene \<Rightarrow> voxel_qt_scene" where
  "start_next_turn s =
     (case queue s of
        [] \<Rightarrow> s\<lparr>animating := False, current_move := None, moving_indices := None\<rparr>
      | (ax, idx, d) # rest \<Rightarrow>
          s\<lparr>animating := True, frame := 0, queue := rest,
            current_move := Some (ax, idx, d),
            moving_indices := Some (np_where (slice_mask (model s) ax idx))\<rparr>)"

text \<open>
  Python's \<^verbatim>\<open>int\<close> on a float: the fraction of a finite value is cut off, towards zero;
  an infinity raises \<^verbatim>\<open>OverflowError\<close> and a NaN raises \<^verbatim>\<open>ValueError\<close>.
\<close>

definition py_int :: "real \<Rightarrow> int" where
  "py_int v = (if 0 \<le> v then \<lfloor>v\<rfloor> else \<lceil>v\<rceil>)"

definition float_to_int :: "pyfloat \<Rightarrow> error + int" where
  "float_to_int x =
     (case x of
        Finite v \<Rightarrow> Inr (py_int v)
      | PlusInf \<Rightarrow> Inl OverflowError
      | MinusInf \<Rightarrow> Inl OverflowError
      | NotANumber \<Rightarrow> Inl ValueError)"

text \<open>
  The frame count \<^verbatim>\<open>max(1, int(self.frames_per_turn / self.speed))\<close> and the fraction
  \<^verbatim>\<open>self.frame / max(1, total_frames-1)\<close> of \<^verbatim>\<open>_on_tick\<close>.
\<close>

definition total_frames :: "float_ops \<Rightarrow> int \<Rightarrow> pyfloat \<Rightarrow> error + int" where
  "total_frames fo fpt sp =
     (case int_div_float fo fpt sp of
        Inl e \<Rightarrow> Inl e
      | Inr q \<Rightarrow>
          (case float_to_int q of
             Inl e \<Rightarrow> Inl e
           | Inr k \<Rightarrow> Inr (max 1 k)))"

definition interp_fraction :: "float_ops \<Rightarrow> int \<Rightarrow> int \<Rightarrow> real" where
  "interp_fraction fo fr tf = rnd fo (of_int fr / of_int (max 1 (tf - 1)))"



section \<open>Conditions and reference functions for the proofs\<close>

text \<open>
  What the proofs ask of the floating-point operations. One rounded operation on a value
  of magnitude up to \<open>2^17\<close> is off by at most \<open>(\<bar>v\<bar> + 1) / 2^40\<close>; at the two angles
  that \<^verbatim>\<open>_rotate_slice_90\<close> passes, the cosine is within \<open>2^-40\<close> of \<open>0\<close> and the sine
  within \<open>2^-40\<close> of the direction. IEEE double arithmetic (unit roundoff \<open>2^-53\<close>) and
  the library values \<^verbatim>\<open>cos(pi/2) = 6.1e-17\<close>, \<^verbatim>\<open>sin(pi/2) = 1.0\<close> are well inside.
\<close>

definition float_ok :: "float_ops \<Rightarrow> bool" where
  "float_ok fo \<longleftrightarrow>
     (\<forall>v. \<bar>v\<bar> \<le> 2 ^ 17 \<longrightarrow> \<bar>rnd fo v - v\<bar> \<le> (\<bar>v\<bar> + 1) / 2 ^ 40) \<and>
     \<bar>fcos fo (quarter_angle fo 1)\<bar> \<le> 1 / 2 ^ 40 \<and>
     \<bar>fsin fo (quarter_angle fo 1) - 1\<bar> \<le> 1 / 2 ^ 40 \<and>
     \<bar>fcos fo (quarter_angle fo (- 1))\<bar> \<le> 1 / 2 ^ 40 \<and>
     \<bar>fsin fo (quarter_angle fo (- 1)) + 1\<bar> \<le> 1 / 2 ^ 40"

text \<open>
  The exact quarter turn on integer points, the reference against which the rotate and
  re-snap step is compared: about the axis \<open>ax\<close>, in direction \<open>d\<close>, with the pivot at
  \<open>(n-1)/2\<close> in every coordinate.
\<close>

definition flip_coord :: "int \<Rightarrow> int \<Rightarrow> int \<Rightarrow> int" where
  "flip_coord n d v = (if d = 1 then n - 1 - v else v)"

definition keep_coord :: "int \<Rightarrow> int \<Rightarrow> int \<Rightarrow> int" where
  "keep_coord n d v = (if d = 1 then v else n - 1 - v)"

definition turn_point :: "int \<Rightarrow> string \<Rightarrow> int \<Rightarrow> point \<Rightarrow> point" where
  "turn_point n ax d p =
     (case p of (x, y, z) \<Rightarrow>
        if ax = ''x'' then (x, flip_coord n d z, keep_coord n d y)
        else if ax = ''y'' then (keep_coord n d z, y, flip_coord n d x)
        else (flip_coord n d y, keep_coord n d x, z))"

text \<open>The coordinate that \<^verbatim>\<open>_slice_mask\<close> compares for an axis.\<close>

definition axis_coord :: "string \<Rightarrow> point \<Rightarrow> int" where
  "axis_coord ax p =
     (case p of (x, y, z) \<Rightarrow> if ax = ''x'' then x else if ax = ''y'' then y else z)"

definition turn_slice :: "int \<Rightarrow> string \<Rightarrow> int \<Rightarrow> int \<Rightarrow> point \<Rightarrow> point" where
  "turn_slice n ax idx d p = (if axis_coord ax p = idx then turn_point n ax d p else p)"

definition in_cube :: "int \<Rightarrow> point \<Rightarrow> bool" where
  "in_cube n p =
     (case p of (x, y, z) \<Rightarrow> 0 \<le> x \<and> x < n \<and> 0 \<le> y \<and> y < n \<and> 0 \<le> z \<and> z < n)"

text \<open>
  The premises of the snapping lemmas: the operations are accurate, the size fits
  sixteen bits, \<open>h\<close> is the stored pivot, and \<open>c\<close>, \<open>s\<close> are the computed cosine and sine
  of a quarter turn in direction \<open>d\<close>.
\<close>

definition snap_ctx :: "float_ops \<Rightarrow> int \<Rightarrow> real \<Rightarrow> int \<Rightarrow> real \<Rightarrow> real \<Rightarrow> bool" where
  "snap_ctx fo n h d c s \<longleftrightarrow>
     float_ok fo \<and> 2 \<le> n \<and> n \<le> 32768 \<and> \<bar>h - of_int (n - 1) / 2\<bar> \<le> 1 / 2 ^ 22 \<and>
     (d = 1 \<or> d = - 1) \<and> \<bar>c\<bar> \<le> 1 / 2 ^ 40 \<and> \<bar>s - of_int d\<bar> \<le> 1 / 2 ^ 40"

text \<open>
  A lattice whose size is between \<open>2\<close> and \<open>2^15\<close>, whose pivot is the one the
  constructor stores, and whose cubelets all lie in \<open>[0, n-1]^3\<close>.
\<close>

definition cube_ok :: "float_ops \<Rightarrow> voxel_rubiks \<Rightarrow> bool" where
  "cube_ok fo m \<longleftrightarrow>
     2 \<le> cube_n m \<and> cube_n m \<le> 32768 \<and>
     half m = rnd fo (of_int (cube_n m - 1) / 2) \<and>
     list_all (in_cube (cube_n m)) (coords m)"

text \<open>
  The lattice invariant: in addition, no two cubelets share a position, and the
  positions are those of the solved snapshot, which is the shell of the cube in
  construction order.
\<close>

definition lattice_inv :: "float_ops \<Rightarrow> voxel_rubiks \<Rightarrow> bool" where
  "lattice_inv fo m \<longleftrightarrow>
     cube_ok fo m \<and> distinct (coords m) \<and>
     set (coords m) = set (solved m) \<and> length (coords m) = length (solved m) \<and>
     solved m = shell_cells (cube_n m)"

text \<open>
  The unit quarter turns that \<^verbatim>\<open>enqueue_move\<close> puts on the queue for a list of moves, and
  the commits of \<^verbatim>\<open>_rotate_slice_90\<close> for a list of unit turns, front first.
\<close>

definition unit_turns :: "move list \<Rightarrow> (string \<times> int \<times> int) list" where
  "unit_turns ms =
     concat (map (\<lambda>m. replicate (nat (move_k m mod 4)) (move_axis m, move_index m, 1)) ms)"

fun commit_turns ::
  "float_ops \<Rightarrow> voxel_rubiks \<Rightarrow> (string \<times> int \<times> int) list \<Rightarrow> voxel_rubiks" where
  "commit_turns fo m [] = m"
| "commit_turns fo m ((ax, idx, d) # rest) = commit_turns fo (rotate_slice_90 fo m ax idx d) rest"

text \<open>The inverse sequence as the specification words it: reverse, map the counts, drop zeros.\<close>

definition inverse_count :: "int \<Rightarrow> int" where
  "inverse_count k = (4 - (k mod 4)) mod 4"

definition inverse_spec :: "move list \<Rightarrow> move list" where
  "inverse_spec hs =
     map (\<lambda>m. Move (move_axis m) (move_index m) (inverse_count (move_k m)))
       (filter (\<lambda>m. inverse_count (move_k m) \<noteq> 0) (rev hs))"

text \<open>The indices that a slice mask selects, as a set.\<close>

definition slice_set :: "voxel_rubiks \<Rightarrow> string \<Rightarrow> int \<Rightarrow> nat set" where
  "slice_set m ax idx = {i. i < length (coords m) \<and> slice_mask m ax idx ! i}"

text \<open>
  The unit turns that the scheduler still has to commit: the one being animated, if
  any, then the queue.
\<close>

definition pending :: "voxel_qt_scene \<Rightarrow> (string \<times> int \<times> int) list" where
  "pending s =
     (if animating s then (case current_move s of None \<Rightarrow> [] | Some mv \<Rightarrow> [mv]) else [])
     @ queue s"

text \<open>
  Concrete operations on which the model runs: arithmetic without rounding error,
  \<^verbatim>\<open>math.pi\<close> as the double it is, and the cosine and sine at the angles \<open>\<plusminus>pi/2\<close> as the
  doubles the C library returns there (\<open>cos\<close> is \<open>4967757600021511 / 2^106\<close>, about
  \<open>6.1e-17\<close>); elsewhere a quadratic and a linear stand-in. The largest finite double
  is \<open>2^1024 - 2^971\<close>.
\<close>

definition sample_ops :: float_ops where
  "sample_ops =
     \<lparr> rnd = (\<lambda>v. v),
       fcos = (\<lambda>a. if \<bar>a\<bar> = 884279719003555 / 562949953421312
                   then 4967757600021511 / 2 ^ 106 else 1 - a * a / 2),
       fsin = (\<lambda>a. if a = 884279719003555 / 562949953421312 then 1
                   else if a = - (884279719003555 / 562949953421312) then - 1 else a),
       fpi = 884279719003555 / 281474976710656,
       fmax = 2 ^ 1024 - 2 ^ 971 \<rparr>"

text \<open>A small linear congruential generator standing in for the Mersenne Twister.\<close>

definition sample_rng :: "nat rng_ops" where
  "sample_rng =
     \<lparr> seed_rng = (\<lambda>sd. nat sd),
       randbelow = (\<lambda>k g. ((g div 65536) mod k, (g * 1103515245 + 12345) mod 2147483648)) \<rparr>"

text \<open>The lattice and the scene of size \<open>2\<close> on the sample operations.\<close>

definition sample_lattice :: voxel_rubiks where
  "sample_lattice =
     \<lparr> cube_n = 2, half = 1 / 2,
       coords = [(0, 0, 0), (1, 0, 0), (0, 1, 0), (1, 1, 0),
                 (0, 0, 1), (1, 0, 1), (0, 1, 1), (1, 1, 1)],
       masks = [21, 37, 25, 41, 22, 38, 26, 42],
       solved = [(0, 0, 0), (1, 0, 0), (0, 1, 0), (1, 1, 0),
                 (0, 0, 1), (1, 0, 1), (0, 1, 1), (1, 1, 1)],
       history = [] \<rparr>"

text \<open>
  FNV-1a on 32-bit words, as the specification names it: offset basis \<open>2166136261\<close>,
  prime \<open>16777619\<close>, for each character an exclusive or, then a multiplication.
\<close>

definition fnv1a_spec :: "pystr \<Rightarrow> 32 word" where
  "fnv1a_spec t = fold (\<lambda>ch h. (h XOR word_of_nat ch) * 16777619) t 2166136261"

text \<open>The scene that \<^verbatim>\<open>VoxelQtScene(n=2)\<close> builds on the sample operations.\<close>

definition sample_scene :: voxel_qt_scene where
  "sample_scene =
     \<lparr> scene_n = 2, model = sample_lattice, scene_half = 1 / 2,
       cubelets =
         map (\<lambda>(p, bits).
                \<lparr> translation = rest_point sample_ops (1 / 2) p,
                  scale = 92 / 100,
                  color = blend_colors sample_ops (uint bits) \<rparr>)
           (zip (coords sample_lattice) (masks sample_lattice)),
       queue = [], animating = False, frame = 0, frames_per_turn = 12, speed = Finite 1,
       current_move = None, moving_indices = None \<rparr>"

text \<open>
  A scene on which a tick cannot raise: the frame count can be computed from the speed
  (the speed is not zero and not a NaN, and the quotient is finite), there is one
  entity per cubelet, and while a turn is animated the current move is set and the
  moving indices are positions of the coordinate array. The constructor establishes it
  when the frame count of its speed \<open>1.0\<close> can be computed, and \<^verbatim>\<open>enqueue_move\<close> and
  \<^verbatim>\<open>_on_tick\<close> keep it.
\<close>

definition scene_ok :: "float_ops \<Rightarrow> voxel_qt_scene \<Rightarrow> bool" where
  "scene_ok fo s \<longleftrightarrow>
     \<not> isl (total_frames fo (frames_per_turn s) (speed s)) \<and>
     length (cubelets s) = length (coords (model s)) \<and>
     (animating s \<longrightarrow>
        current_move s \<noteq> None \<and>
        (case moving_indices s of
           None \<Rightarrow> False
         | Some idxs \<Rightarrow> list_all (\<lambda>i. i < length (coords (model s))) idxs))"



section \<open>Recording a move\<close>

lemma enqueue_move_queue:
  "queue (enqueue_move s ax idx k record) = queue s @ replicate (nat (k mod 4)) (ax, idx, 1)"
  by (simp add: enqueue_move_def Let_def)

lemma enqueue_move_history:
  "history (model (enqueue_move s ax idx k record)) =
     (if record then history (model s) @ [Move ax idx (k mod 4)] else history (model s))"
  by (simp add: enqueue_move_def Let_def)

text \<open>
  C4, at the call \<^verbatim>\<open>enqueue_move('x', 0, 4)\<close> with \<^verbatim>\<open>record\<close> left at its default: the count
  is normalised to \<open>0\<close> and nothing is queued, but the history grows by the entry
  \<^verbatim>\<open>Move('x', 0, 0)\<close>. The append is not guarded by the normalised count.
\<close>

theorem enqueue_move_records_zero_turn:
  "history (model (enqueue_move s ''x'' 0 4 True)) = history (model s) @ [Move ''x'' 0 0] \<and>
   history (model (enqueue_move s ''x'' 0 4 True)) \<noteq> history (model s) \<and>
   queue (enqueue_move s ''x'' 0 4 True) = queue s"
  by (simp add: enqueue_move_queue enqueue_move_history)

section \<open>The rotate and re-snap step is the exact quarter turn\<close>

lemma rnd_near:
  assumes "float_ok fo" and "\<bar>v\<bar> \<le> 2 ^ 17"
  shows "\<bar>rnd fo v - v\<bar> \<le> 1 / 2 ^ 22"
proof -
  have "\<bar>rnd fo v - v\<bar> \<le> (\<bar>v\<bar> + 1) / 2 ^ 40"
    using assms by (simp add: float_ok_def)
  also have "\<dots> \<le> (2 ^ 17 + 1) / 2 ^ 40"
    using assms(2) by (simp add: divide_right_mono)
  also have "\<dots> \<le> 1 / 2 ^ 22" by simp
  finally show ?thesis .
qed

lemma rint_near:
  assumes "\<bar>v - of_int m\<bar> < 1 / 2"
  shows "rint v = m"
proof -
  have "\<lfloor>v\<rfloor> = m \<or> \<lfloor>v\<rfloor> = m - 1" using assms by linarith
  then show ?thesis
  proof
    assume f: "\<lfloor>v\<rfloor> = m"
    have "v - of_int m < 1 / 2" using assms unfolding abs_less_iff by (simp; (safe)?; linarith)
    then show ?thesis by (simp add: rint_def Let_def f)
  next
    assume f: "\<lfloor>v\<rfloor> = m - 1"
    have "1 / 2 < v - of_int (m - 1)" using assms unfolding abs_less_iff by (simp; (safe)?; linarith)
    then show ?thesis by (simp add: rint_def Let_def f)
  qed
qed

lemma small_prod:
  assumes "float_ok fo" and "\<bar>c\<bar> \<le> 1 / 2 ^ 40" and "\<bar>p\<bar> \<le> 2 ^ 16"
  shows "\<bar>rnd fo (c * p)\<bar> \<le> 1 / 2 ^ 20"
proof -
  have "\<bar>c * p\<bar> \<le> (1 / 2 ^ 40) * 2 ^ 16"
    unfolding abs_mult using assms(2,3) by (intro mult_mono) auto
  then have b: "\<bar>c * p\<bar> \<le> 1 / 2 ^ 24" by simp
  then have "\<bar>c * p\<bar> \<le> 2 ^ 17" unfolding abs_le_iff by (simp; (safe)?; linarith)
  from rnd_near [OF assms(1) this] b show ?thesis unfolding abs_le_iff by (simp; (safe)?; linarith)
qed

lemma unit_prod:
  assumes "float_ok fo" and "\<bar>s - g\<bar> \<le> 1 / 2 ^ 40" and "\<bar>g\<bar> = 1"
    and "\<bar>p - q\<bar> \<le> 1 / 2 ^ 20" and "\<bar>q\<bar> \<le> 2 ^ 15"
  shows "\<bar>rnd fo (s * p) - g * q\<bar> \<le> 1 / 2 ^ 18"
proof -
  have pb: "\<bar>p\<bar> \<le> 2 ^ 16" using assms(4,5) unfolding abs_le_iff abs_less_iff by (simp; (safe)?; linarith)
  have "\<bar>(s - g) * p\<bar> \<le> (1 / 2 ^ 40) * 2 ^ 16"
    unfolding abs_mult using assms(2) pb by (intro mult_mono) auto
  then have e1: "\<bar>(s - g) * p\<bar> \<le> 1 / 2 ^ 24" by simp
  have "\<bar>g * (p - q)\<bar> = \<bar>p - q\<bar>" by (simp add: abs_mult assms(3))
  then have e2: "\<bar>g * (p - q)\<bar> \<le> 1 / 2 ^ 20" using assms(4) by simp
  have eq: "s * p - g * q = (s - g) * p + g * (p - q)" by (simp add: algebra_simps)
  have e3: "\<bar>s * p - g * q\<bar> \<le> 1 / 2 ^ 19" unfolding eq using e1 e2 unfolding abs_le_iff abs_less_iff by (simp; (safe)?; linarith)
  have "\<bar>g * q\<bar> \<le> 2 ^ 15" using assms(5) by (simp add: abs_mult assms(3))
  then have "\<bar>s * p\<bar> \<le> 2 ^ 17" using e3 unfolding abs_le_iff abs_less_iff by (simp; (safe)?; linarith)
  from rnd_near [OF assms(1) this] e3 show ?thesis unfolding abs_le_iff abs_less_iff by (simp; (safe)?; linarith)
qed

lemma sum_near:
  assumes "float_ok fo" and "\<bar>a - w\<bar> \<le> 1 / 2 ^ 18" and "\<bar>b\<bar> \<le> 1 / 2 ^ 20" and "\<bar>w\<bar> \<le> 2 ^ 15"
  shows "\<bar>rnd fo (a + b) - w\<bar> \<le> 1 / 2 ^ 16"
    and "\<bar>rnd fo (b + a) - w\<bar> \<le> 1 / 2 ^ 16"
    and "\<bar>rnd fo (b - a) - (- w)\<bar> \<le> 1 / 2 ^ 16"
proof -
  have 1: "\<bar>a + b\<bar> \<le> 2 ^ 17" using assms(2-4) unfolding abs_le_iff abs_less_iff by (simp; (safe)?; linarith)
  from rnd_near [OF assms(1) this] assms(2,3) show "\<bar>rnd fo (a + b) - w\<bar> \<le> 1 / 2 ^ 16"
    unfolding abs_le_iff abs_less_iff by (simp; (safe)?; linarith)
  then show "\<bar>rnd fo (b + a) - w\<bar> \<le> 1 / 2 ^ 16" by (simp add: add.commute)
  have 2: "\<bar>b - a\<bar> \<le> 2 ^ 17" using assms(2-4) unfolding abs_le_iff abs_less_iff by (simp; (safe)?; linarith)
  from rnd_near [OF assms(1) this] assms(2,3) show "\<bar>rnd fo (b - a) - (- w)\<bar> \<le> 1 / 2 ^ 16"
    unfolding abs_le_iff abs_less_iff by (simp; (safe)?; linarith)
qed

lemma back_near:
  assumes "float_ok fo" and "\<bar>q - w\<bar> \<le> 1 / 2 ^ 16" and "\<bar>h - hh\<bar> \<le> 1 / 2 ^ 22"
    and "w + hh = of_int m" and "\<bar>m\<bar> \<le> 2 ^ 15"
  shows "rint (rnd fo (q + h)) = m"
proof -
  have mb: "\<bar>(of_int m :: real)\<bar> \<le> 2 ^ 15"
    using assms(5) by (metis of_int_abs of_int_le_numeral_power_cancel_iff)
  have e: "\<bar>(q + h) - of_int m\<bar> \<le> 1 / 2 ^ 15"
    using assms(2,3) unfolding assms(4) [symmetric] unfolding abs_le_iff abs_less_iff by (simp; (safe)?; linarith)
  then have "\<bar>q + h\<bar> \<le> 2 ^ 17" using mb unfolding abs_le_iff abs_less_iff by (simp; (safe)?; linarith)
  from rnd_near [OF assms(1) this] e have "\<bar>rnd fo (q + h) - of_int m\<bar> < 1 / 2"
    unfolding abs_le_iff abs_less_iff by (simp; (safe)?; linarith)
  then show ?thesis by (rule rint_near)
qed

lemma to_int16_id: "- 32768 \<le> v \<Longrightarrow> v < 32768 \<Longrightarrow> to_int16 v = v"
  unfolding to_int16_def by (simp add: signed_of_int signed_take_bit_int_eq_self)

lemma centred_near:
  fixes u nr h hh :: real
  assumes fo: "float_ok fo" and hh: "\<bar>h - hh\<bar> \<le> 1 / 2 ^ 22" and h2: "2 * hh = nr - 1"
    and u0: "0 \<le> u" and un: "u \<le> nr - 1" and nn: "nr \<le> 32768"
  shows "\<bar>rnd fo (u - h) - (u - hh)\<bar> \<le> 1 / 2 ^ 20"
    and "\<bar>u - hh\<bar> \<le> 2 ^ 15"
    and "\<bar>rnd fo (u - h)\<bar> \<le> 2 ^ 16"
proof -
  show w: "\<bar>u - hh\<bar> \<le> 2 ^ 15"
    using u0 un nn h2 unfolding abs_le_iff by (simp; (safe)?; linarith)
  have "\<bar>u - h\<bar> \<le> 2 ^ 17"
    using u0 un nn hh h2 unfolding abs_le_iff by (simp; (safe)?; linarith)
  from rnd_near [OF fo this] hh
  show e: "\<bar>rnd fo (u - h) - (u - hh)\<bar> \<le> 1 / 2 ^ 20"
    unfolding abs_le_iff by (simp; (safe)?; linarith)
  from e w show "\<bar>rnd fo (u - h)\<bar> \<le> 2 ^ 16"
    unfolding abs_le_iff by (simp; (safe)?; linarith)
qed

lemma coord_near:
  assumes "snap_ctx fo n h d c s" and "0 \<le> u" and "u < n"
  shows "\<bar>rnd fo (of_int u - h) - (of_int u - of_int (n - 1) / 2)\<bar> \<le> 1 / 2 ^ 20"
    and "\<bar>of_int u - of_int (n - 1) / (2::real)\<bar> \<le> 2 ^ 15"
    and "\<bar>rnd fo (of_int u - h)\<bar> \<le> 2 ^ 16"
proof -
  have fo: "float_ok fo" and hh: "\<bar>h - (of_int n - 1) / 2\<bar> \<le> 1 / 2 ^ 22"
    and n: "n \<le> 32768" using assms(1) by (simp_all add: snap_ctx_def)
  have u0: "(0::real) \<le> of_int u" and un: "(of_int u :: real) \<le> of_int n - 1"
    and nn: "(of_int n :: real) \<le> 32768"
    using assms(2,3) n by linarith+
  have h2: "2 * ((of_int n - 1) / 2) = (of_int n :: real) - 1" by simp
  note c = centred_near [OF fo hh h2 u0 un nn]
  show "\<bar>rnd fo (of_int u - h) - (of_int u - of_int (n - 1) / 2)\<bar> \<le> 1 / 2 ^ 20"
    using c(1) by simp
  show "\<bar>of_int u - of_int (n - 1) / (2::real)\<bar> \<le> 2 ^ 15"
    using c(2) by simp
  show "\<bar>rnd fo (of_int u - h)\<bar> \<le> 2 ^ 16"
    using c(3) by simp
qed

lemma snap_same:
  assumes ctx: "snap_ctx fo n h d c s" and u: "0 \<le> u" "u < n"
  shows "to_int16 (rint (rnd fo (rnd fo (of_int u - h) + h))) = u"
proof -
  have fo: "float_ok fo" and hh: "\<bar>h - of_int (n - 1) / 2\<bar> \<le> 1 / 2 ^ 22"
    and n: "n \<le> 32768" using ctx by (simp_all add: snap_ctx_def)
  note c = coord_near [OF ctx u]
  have q: "\<bar>rnd fo (of_int u - h) - (of_int u - of_int (n - 1) / 2)\<bar> \<le> 1 / 2 ^ 16"
    by (rule order_trans [OF c(1)]) simp
  have "rint (rnd fo (rnd fo (of_int u - h) + h)) = u"
    by (rule back_near [OF fo q hh]) (use u n in auto)
  then show ?thesis using u n by (simp add: to_int16_id)
qed

lemma snap_minus:
  assumes ctx: "snap_ctx fo n h d c s" and u: "0 \<le> u" "u < n" and v: "0 \<le> v" "v < n"
  shows "to_int16 (rint (rnd fo (rnd fo
           (rnd fo (c * rnd fo (of_int u - h)) - rnd fo (s * rnd fo (of_int v - h))) + h)))
         = flip_coord n d v"
proof -
  have fo: "float_ok fo" and hh: "\<bar>h - of_int (n - 1) / 2\<bar> \<le> 1 / 2 ^ 22"
    and n: "n \<le> 32768" and d: "d = 1 \<or> d = - 1" and cc: "\<bar>c\<bar> \<le> 1 / 2 ^ 40"
    and ss: "\<bar>s - of_int d\<bar> \<le> 1 / 2 ^ 40"
    using ctx by (simp_all add: snap_ctx_def)
  have g: "\<bar>of_int d :: real\<bar> = 1" using d by auto
  note cu = coord_near [OF ctx u] and cv = coord_near [OF ctx v]
  note b = small_prod [OF fo cc cu(3)]
  note a = unit_prod [OF fo ss g cv(1) cv(2)]
  have w: "\<bar>of_int d * (of_int v - of_int (n - 1) / (2::real))\<bar> \<le> 2 ^ 15"
    using cv(2) g by (simp add: abs_mult)
  note q = sum_near(3) [OF fo a b w]
  have "rint (rnd fo (rnd fo
           (rnd fo (c * rnd fo (of_int u - h)) - rnd fo (s * rnd fo (of_int v - h))) + h))
        = flip_coord n d v"
    by (rule back_near [OF fo q hh]) (use d v n in \<open>auto simp: flip_coord_def\<close>)
  then show ?thesis using d v n by (auto simp: to_int16_id flip_coord_def)
qed

lemma snap_plus:
  assumes ctx: "snap_ctx fo n h d c s" and u: "0 \<le> u" "u < n" and v: "0 \<le> v" "v < n"
  shows "to_int16 (rint (rnd fo (rnd fo
           (rnd fo (s * rnd fo (of_int u - h)) + rnd fo (c * rnd fo (of_int v - h))) + h)))
         = keep_coord n d u"
proof -
  have fo: "float_ok fo" and hh: "\<bar>h - of_int (n - 1) / 2\<bar> \<le> 1 / 2 ^ 22"
    and n: "n \<le> 32768" and d: "d = 1 \<or> d = - 1" and cc: "\<bar>c\<bar> \<le> 1 / 2 ^ 40"
    and ss: "\<bar>s - of_int d\<bar> \<le> 1 / 2 ^ 40"
    using ctx by (simp_all add: snap_ctx_def)
  have g: "\<bar>of_int d :: real\<bar> = 1" using d by auto
  note cu = coord_near [OF ctx u] and cv = coord_near [OF ctx v]
  note b = small_prod [OF fo cc cv(3)]
  note a = unit_prod [OF fo ss g cu(1) cu(2)]
  have w: "\<bar>of_int d * (of_int u - of_int (n - 1) / (2::real))\<bar> \<le> 2 ^ 15"
    using cu(2) g by (simp add: abs_mult)
  note q = sum_near(1) [OF fo a b w]
  have "rint (rnd fo (rnd fo
           (rnd fo (s * rnd fo (of_int u - h)) + rnd fo (c * rnd fo (of_int v - h))) + h))
        = keep_coord n d u"
    by (rule back_near [OF fo q hh]) (use d u n in \<open>auto simp: keep_coord_def\<close>)
  then show ?thesis using d u n by (auto simp: to_int16_id keep_coord_def)
qed

lemma snap_plus_right:
  assumes ctx: "snap_ctx fo n h d c s" and u: "0 \<le> u" "u < n" and v: "0 \<le> v" "v < n"
  shows "to_int16 (rint (rnd fo (rnd fo
           (rnd fo (c * rnd fo (of_int u - h)) + rnd fo (s * rnd fo (of_int v - h))) + h)))
         = keep_coord n d v"
proof -
  have fo: "float_ok fo" and hh: "\<bar>h - of_int (n - 1) / 2\<bar> \<le> 1 / 2 ^ 22"
    and n: "n \<le> 32768" and d: "d = 1 \<or> d = - 1" and cc: "\<bar>c\<bar> \<le> 1 / 2 ^ 40"
    and ss: "\<bar>s - of_int d\<bar> \<le> 1 / 2 ^ 40"
    using ctx by (simp_all add: snap_ctx_def)
  have g: "\<bar>of_int d :: real\<bar> = 1" using d by auto
  note cu = coord_near [OF ctx u] and cv = coord_near [OF ctx v]
  note b = small_prod [OF fo cc cu(3)]
  note a = unit_prod [OF fo ss g cv(1) cv(2)]
  have w: "\<bar>of_int d * (of_int v - of_int (n - 1) / (2::real))\<bar> \<le> 2 ^ 15"
    using cv(2) g by (simp add: abs_mult)
  note q = sum_near(2) [OF fo a b w]
  have "rint (rnd fo (rnd fo
           (rnd fo (c * rnd fo (of_int u - h)) + rnd fo (s * rnd fo (of_int v - h))) + h))
        = keep_coord n d v"
    by (rule back_near [OF fo q hh]) (use d v n in \<open>auto simp: keep_coord_def\<close>)
  then show ?thesis using d v n by (auto simp: to_int16_id keep_coord_def)
qed

lemma snap_neg:
  assumes ctx: "snap_ctx fo n h d c s" and u: "0 \<le> u" "u < n" and v: "0 \<le> v" "v < n"
  shows "to_int16 (rint (rnd fo (rnd fo
           (rnd fo ((- s) * rnd fo (of_int u - h)) + rnd fo (c * rnd fo (of_int v - h))) + h)))
         = flip_coord n d u"
proof -
  have fo: "float_ok fo" and hh: "\<bar>h - of_int (n - 1) / 2\<bar> \<le> 1 / 2 ^ 22"
    and n: "n \<le> 32768" and d: "d = 1 \<or> d = - 1" and cc: "\<bar>c\<bar> \<le> 1 / 2 ^ 40"
    and ss: "\<bar>s - of_int d\<bar> \<le> 1 / 2 ^ 40"
    using ctx by (simp_all add: snap_ctx_def)
  have g: "\<bar>- of_int d :: real\<bar> = 1" using d by auto
  have ss': "\<bar>(- s) - (- of_int d)\<bar> \<le> 1 / 2 ^ 40"
    using ss by (simp add: abs_minus_commute)
  note cu = coord_near [OF ctx u] and cv = coord_near [OF ctx v]
  note b = small_prod [OF fo cc cv(3)]
  note a = unit_prod [OF fo ss' g cu(1) cu(2)]
  have w: "\<bar>(- of_int d) * (of_int u - of_int (n - 1) / (2::real))\<bar> \<le> 2 ^ 15"
    using cu(2) g by (simp add: abs_mult)
  note q = sum_near(1) [OF fo a b w]
  have "rint (rnd fo (rnd fo
           (rnd fo ((- s) * rnd fo (of_int u - h)) + rnd fo (c * rnd fo (of_int v - h))) + h))
        = flip_coord n d u"
    by (rule back_near [OF fo q hh]) (use d u n in \<open>auto simp: flip_coord_def\<close>)
  then show ?thesis using d u n by (auto simp: to_int16_id flip_coord_def)
qed

lemma rotate_point_exact:
  assumes ctx: "snap_ctx fo n h d c s" and p: "in_cube n p"
  shows "rotate_point fo h ax c s p = turn_point n ax d p"
proof -
  obtain x y z where xyz: "p = (x, y, z)" by (cases p)
  have x: "0 \<le> x" "x < n" and y: "0 \<le> y" "y < n" and z: "0 \<le> z" "z < n"
    using p by (simp_all add: in_cube_def xyz)
  note same = snap_same [OF ctx]
  show ?thesis
    unfolding xyz rotate_point_def turn_point_def
    by (simp add: Let_def same x y z
        snap_minus [OF ctx] snap_plus [OF ctx] snap_plus_right [OF ctx]
        snap_neg [OF ctx, unfolded mult_minus_left])
qed

section \<open>Algebra of the exact quarter turn\<close>

lemma slice_mask_axis_coord:
  "slice_mask m ax idx = map (\<lambda>p. axis_coord ax p = idx) (coords m)"
  by (auto simp: slice_mask_def axis_coord_def)

lemma map_zip_select:
  "map (\<lambda>(sel, p). if sel then f p else p) (zip (map t ps) ps) =
   map (\<lambda>p. if t p then f p else p) ps"
  by (induction ps) simp_all

lemma axis_coord_turn_point [simp]: "axis_coord ax (turn_point n ax d p) = axis_coord ax p"
  by (cases p) (simp add: axis_coord_def turn_point_def)

lemma axis_coord_turn_slice [simp]:
  "axis_coord ax (turn_slice n ax idx d p) = axis_coord ax p"
  by (simp add: turn_slice_def)

lemma in_cube_turn_point: "in_cube n p \<Longrightarrow> in_cube n (turn_point n ax d p)"
  by (cases p) (auto simp: in_cube_def turn_point_def flip_coord_def keep_coord_def)

lemma in_cube_turn_slice: "in_cube n p \<Longrightarrow> in_cube n (turn_slice n ax idx d p)"
  by (simp add: turn_slice_def in_cube_turn_point)

lemma on_shell_turn_point: "on_shell n p \<Longrightarrow> on_shell n (turn_point n ax d p)"
  by (cases p) (auto simp: on_shell_def turn_point_def flip_coord_def keep_coord_def)

lemma on_shell_turn_slice: "on_shell n p \<Longrightarrow> on_shell n (turn_slice n ax idx d p)"
  by (simp add: turn_slice_def on_shell_turn_point)

lemma turn_point_back:
  "d = 1 \<or> d = - 1 \<Longrightarrow> turn_point n ax (- d) (turn_point n ax d p) = p"
  by (cases p) (auto simp: turn_point_def flip_coord_def keep_coord_def)

lemma turn_slice_back:
  "d = 1 \<or> d = - 1 \<Longrightarrow> turn_slice n ax idx (- d) (turn_slice n ax idx d p) = p"
  by (simp add: turn_slice_def turn_point_back)

lemma turn_point_four:
  "turn_point n ax d (turn_point n ax d (turn_point n ax d (turn_point n ax d p))) = p"
  by (cases p) (auto simp: turn_point_def flip_coord_def keep_coord_def)

lemma turn_slice_four:
  "turn_slice n ax idx d (turn_slice n ax idx d (turn_slice n ax idx d (turn_slice n ax idx d p)))
   = p"
  by (simp add: turn_slice_def turn_point_four)

lemma inj_turn_slice:
  assumes "d = 1 \<or> d = - 1"
  shows "inj (turn_slice n ax idx d)"
  by (rule inj_on_inverseI [where g = "turn_slice n ax idx (- d)"])
     (simp add: turn_slice_back [OF assms])

section \<open>A commit is the exact quarter turn of the slice\<close>

lemma cube_ok_snap_ctx:
  assumes fo: "float_ok fo" and ok: "cube_ok fo m" and d: "d = 1 \<or> d = - 1"
  shows "snap_ctx fo (cube_n m) (half m) d
           (fcos fo (quarter_angle fo d)) (fsin fo (quarter_angle fo d))"
proof -
  have n: "2 \<le> cube_n m" "cube_n m \<le> 32768"
    and h: "half m = rnd fo (of_int (cube_n m - 1) / 2)"
    using ok by (simp_all add: cube_ok_def)
  have "(0::real) \<le> of_int (cube_n m - 1) / 2" "of_int (cube_n m - 1) / 2 \<le> (2::real) ^ 17"
    using n by simp_all
  then have "\<bar>of_int (cube_n m - 1) / (2::real)\<bar> \<le> 2 ^ 17" by simp
  from rnd_near [OF fo this]
  have hh: "\<bar>half m - of_int (cube_n m - 1) / 2\<bar> \<le> 1 / 2 ^ 22" by (simp add: h)
  from d show ?thesis
  proof
    assume "d = 1"
    then show ?thesis using fo n hh by (simp add: snap_ctx_def float_ok_def)
  next
    assume "d = - 1"
    then show ?thesis using fo n hh by (simp add: snap_ctx_def float_ok_def)
  qed
qed

lemma rotate_slice_exact:
  assumes fo: "float_ok fo" and ok: "cube_ok fo m" and d: "d = 1 \<or> d = - 1"
  shows "rotate_slice_90 fo m ax idx d =
         m\<lparr>coords := map (turn_slice (cube_n m) ax idx d) (coords m)\<rparr>"
proof -
  note ctx = cube_ok_snap_ctx [OF fo ok d]
  have cube: "\<And>p. p \<in> set (coords m) \<Longrightarrow> in_cube (cube_n m) p"
    using ok by (simp add: cube_ok_def list_all_iff)
  have "map (\<lambda>p. if axis_coord ax p = idx
                 then rotate_point fo (half m) ax (fcos fo (quarter_angle fo d))
                        (fsin fo (quarter_angle fo d)) p
                 else p) (coords m)
        = map (turn_slice (cube_n m) ax idx d) (coords m)"
    by (rule map_cong [OF refl])
       (simp add: turn_slice_def rotate_point_exact [OF ctx cube])
  then show ?thesis
    by (simp add: rotate_slice_90_def Let_def slice_mask_axis_coord map_zip_select)
qed

lemma cube_ok_rotate:
  assumes fo: "float_ok fo" and ok: "cube_ok fo m" and d: "d = 1 \<or> d = - 1"
  shows "cube_ok fo (rotate_slice_90 fo m ax idx d)"
  using ok unfolding rotate_slice_exact [OF fo ok d]
  by (auto simp: cube_ok_def list_all_iff in_cube_turn_slice)

lemma rotate_four_times:
  assumes fo: "float_ok fo" and ok: "cube_ok fo m" and d: "d = 1 \<or> d = - 1"
  shows "rotate_slice_90 fo (rotate_slice_90 fo (rotate_slice_90 fo
           (rotate_slice_90 fo m ax idx d) ax idx d) ax idx d) ax idx d = m"
proof -
  let ?r = "\<lambda>m. rotate_slice_90 fo m ax idx d"
  note ok1 = cube_ok_rotate [OF fo ok d, of ax idx]
  note ok2 = cube_ok_rotate [OF fo ok1 d, of ax idx]
  note ok3 = cube_ok_rotate [OF fo ok2 d, of ax idx]
  have n1: "cube_n (?r m) = cube_n m"
    by (simp add: rotate_slice_exact [OF fo ok d])
  have n2: "cube_n (?r (?r m)) = cube_n m"
    by (simp add: rotate_slice_exact [OF fo ok1 d] n1)
  have n3: "cube_n (?r (?r (?r m))) = cube_n m"
    by (simp add: rotate_slice_exact [OF fo ok2 d] n2)
  have "?r (?r (?r (?r m))) =
        m\<lparr>coords := map (\<lambda>p. turn_slice (cube_n m) ax idx d (turn_slice (cube_n m) ax idx d
             (turn_slice (cube_n m) ax idx d (turn_slice (cube_n m) ax idx d p)))) (coords m)\<rparr>"
    unfolding rotate_slice_exact [OF fo ok3 d] n3
    unfolding rotate_slice_exact [OF fo ok2 d] n2
    unfolding rotate_slice_exact [OF fo ok1 d] n1
    unfolding rotate_slice_exact [OF fo ok d]
    by (simp add: comp_def)
  then show ?thesis by (simp add: turn_slice_four)
qed

section \<open>The sample operations and the sample lattice\<close>

lemma float_ok_sample: "float_ok sample_ops"
  by (simp add: float_ok_def sample_ops_def quarter_angle_def)

lemma construct_sample: "construct sample_ops 2 = Inr sample_lattice"
  by (simp add: construct_def sample_ops_def sample_lattice_def shell_cells_def on_shell_def
      store_int16_def to_int16_def face_mask_def U_def D_def F_def B_def L_def R_def
      upto.simps Let_def)

lemma cube_ok_sample: "cube_ok sample_ops (sample_lattice\<lparr>history := hs\<rparr>)"
  by (simp add: cube_ok_def sample_lattice_def sample_ops_def in_cube_def)

section \<open>Four quarter turns\<close>

text \<open>
  C3. On a lattice whose cubelets lie in the cube, for every axis string, every slice
  index and both directions, four commits of the same quarter turn give back the
  lattice, so every cubelet has its original integer coordinates. The rotation is the
  one of the source, with the computed cosine and sine and a rounding after every
  operation.
\<close>

theorem four_quarter_turns_identity:
  assumes "float_ok fo" and "cube_ok fo m" and "d = 1 \<or> d = - 1"
  shows "coords (rotate_slice_90 fo (rotate_slice_90 fo (rotate_slice_90 fo
           (rotate_slice_90 fo m ax idx d) ax idx d) ax idx d) ax idx d) = coords m"
  by (simp add: rotate_four_times [OF assms])

theorem four_quarter_turns_identity_witness:
  "float_ok sample_ops \<and> cube_ok sample_ops sample_lattice \<and> ((1::int) = 1 \<or> (1::int) = - 1) \<and>
   coords (rotate_slice_90 sample_ops (rotate_slice_90 sample_ops (rotate_slice_90 sample_ops
     (rotate_slice_90 sample_ops sample_lattice ''x'' 0 1) ''x'' 0 1) ''x'' 0 1) ''x'' 0 1)
   = coords sample_lattice"
proof -
  have ok: "cube_ok sample_ops sample_lattice"
    using cube_ok_sample [of "[]"] by (simp add: sample_lattice_def)
  have d: "(1::int) = 1 \<or> (1::int) = - 1" by simp
  show ?thesis
    using four_quarter_turns_identity [OF float_ok_sample ok d, of "''x''" 0] float_ok_sample ok
    by simp
qed

section \<open>History and inverse history\<close>

lemma commit_turns_append:
  "commit_turns fo m (ts @ us) = commit_turns fo (commit_turns fo m ts) us"
  by (induction ts arbitrary: m) auto

lemma cube_ok_commit_turns:
  assumes fo: "float_ok fo"
  shows "cube_ok fo m \<Longrightarrow> list_all (\<lambda>(ax, idx, d). d = 1 \<or> d = - 1) ts
         \<Longrightarrow> cube_ok fo (commit_turns fo m ts)"
proof (induction ts arbitrary: m)
  case Nil
  then show ?case by simp
next
  case (Cons t ts)
  obtain ax idx d where t: "t = (ax, idx, d)" by (cases t)
  from Cons.prems have d: "d = 1 \<or> d = - 1" and rest: "list_all (\<lambda>(ax, idx, d). d = 1 \<or> d = - 1) ts"
    by (simp_all add: t)
  show ?case
    unfolding t commit_turns.simps
    by (rule Cons.IH [OF cube_ok_rotate [OF fo Cons.prems(1) d] rest])
qed

lemma unit_turns_append: "unit_turns (ms @ ns) = unit_turns ms @ unit_turns ns"
  by (simp add: unit_turns_def)

lemma unit_turns_direction: "list_all (\<lambda>(ax, idx, d). d = 1 \<or> d = - 1) (unit_turns ms)"
  by (auto simp: unit_turns_def list_all_iff)

lemma inverse_count_range: "0 \<le> inverse_count k \<and> inverse_count k < 4"
  by (simp add: inverse_count_def)

lemma inverse_count_sum:
  "nat (k mod 4) + nat (inverse_count k) = 0 \<or> nat (k mod 4) + nat (inverse_count k) = 4"
proof -
  have "0 \<le> k mod 4" "k mod 4 < 4" by simp_all
  then have "k mod 4 = 0 \<or> k mod 4 = 1 \<or> k mod 4 = 2 \<or> k mod 4 = 3" by arith
  then show ?thesis by (auto simp: inverse_count_def)
qed

lemma unit_turns_inverse_moves_Cons:
  "unit_turns (inverse_moves (h # hs)) =
   replicate (nat (inverse_count (move_k h))) (move_axis h, move_index h, 1)
   @ unit_turns (inverse_moves hs)"
proof -
  have r: "inverse_count (move_k h) mod 4 = inverse_count (move_k h)"
    using inverse_count_range [of "move_k h"] by simp
  show ?thesis
    using r by (simp add: Let_def unit_turns_def inverse_count_def)
qed

lemma commit_four_unit_turns:
  assumes fo: "float_ok fo" and ok: "cube_ok fo m"
  shows "commit_turns fo m (replicate 4 (ax, idx, 1)) = m"
proof -
  have e: "replicate 4 (ax, idx, 1::int) = [(ax, idx, 1), (ax, idx, 1), (ax, idx, 1), (ax, idx, 1)]"
    by (simp add: numeral_eq_Suc)
  have d: "(1::int) = 1 \<or> (1::int) = - 1" by simp
  show ?thesis unfolding e by (simp add: rotate_four_times [OF fo ok d])
qed

lemma commit_move_and_inverse:
  assumes fo: "float_ok fo" and ok: "cube_ok fo m"
  shows "commit_turns fo m
           (replicate (nat (k mod 4)) (ax, idx, 1) @ replicate (nat (inverse_count k)) (ax, idx, 1))
         = m"
proof -
  have "replicate (nat (k mod 4)) (ax, idx, 1::int) @ replicate (nat (inverse_count k)) (ax, idx, 1)
        = replicate (nat (k mod 4) + nat (inverse_count k)) (ax, idx, 1)"
    by (simp add: replicate_add)
  moreover from inverse_count_sum [of k]
  have "commit_turns fo m (replicate (nat (k mod 4) + nat (inverse_count k)) (ax, idx, 1)) = m"
  proof
    assume "nat (k mod 4) + nat (inverse_count k) = 0"
    then show ?thesis by simp
  next
    assume "nat (k mod 4) + nat (inverse_count k) = 4"
    then show ?thesis by (simp add: commit_four_unit_turns [OF fo ok])
  qed
  ultimately show ?thesis by simp
qed

lemma commit_history_then_inverse:
  assumes fo: "float_ok fo"
  shows "cube_ok fo m \<Longrightarrow>
         commit_turns fo (commit_turns fo m (unit_turns hs)) (unit_turns (inverse_moves (rev hs)))
         = m"
proof (induction hs rule: rev_induct)
  case Nil
  then show ?case by (simp add: unit_turns_def)
next
  case (snoc h hs)
  let ?t = "(move_axis h, move_index h, 1::int)"
  let ?m1 = "commit_turns fo m (unit_turns hs)"
  have ok1: "cube_ok fo ?m1"
    by (rule cube_ok_commit_turns [OF fo snoc.prems unit_turns_direction])
  have u: "unit_turns (hs @ [h]) = unit_turns hs @ replicate (nat (move_k h mod 4)) ?t"
    by (simp add: unit_turns_def)
  have "commit_turns fo (commit_turns fo m (unit_turns (hs @ [h])))
          (unit_turns (inverse_moves (rev (hs @ [h]))))
        = commit_turns fo
            (commit_turns fo ?m1
               (replicate (nat (move_k h mod 4)) ?t @ replicate (nat (inverse_count (move_k h))) ?t))
            (unit_turns (inverse_moves (rev hs)))"
    unfolding u rev_append rev.simps append_Nil append_Cons unit_turns_inverse_moves_Cons
    by (simp only: commit_turns_append)
  also have "\<dots> = commit_turns fo ?m1 (unit_turns (inverse_moves (rev hs)))"
    by (simp only: commit_move_and_inverse [OF fo ok1])
  also have "\<dots> = m" by (rule snoc.IH [OF snoc.prems])
  finally show ?case .
qed

lemma inverse_moves_spec:
  "inverse_moves ms =
   map (\<lambda>m. Move (move_axis m) (move_index m) (inverse_count (move_k m)))
     (filter (\<lambda>m. inverse_count (move_k m) \<noteq> 0) ms)"
  by (induction ms) (simp_all add: Let_def inverse_count_def)

text \<open>
  C1. \<open>m\<close> is the lattice before its recorded history is applied. Committing the unit
  turns of the history in order and then those of \<^verbatim>\<open>inverse_history\<close> in order gives back
  \<open>m\<close>, coordinates included; and \<^verbatim>\<open>inverse_history\<close> is the reversed history with the
  count \<open>k\<close> replaced by \<open>(4 - k mod 4) mod 4\<close> and the entries of count \<open>0\<close> left out.
\<close>

theorem history_then_inverse_restores:
  assumes "float_ok fo" and "cube_ok fo m"
  shows "coords (commit_turns fo (commit_turns fo m (unit_turns (history m)))
                   (unit_turns (inverse_history m))) = coords m \<and>
         inverse_history m = inverse_spec (history m)"
  using commit_history_then_inverse [OF assms, of "history m"]
  by (simp add: inverse_history_def inverse_spec_def inverse_moves_spec)

theorem history_then_inverse_restores_witness:
  "float_ok sample_ops \<and>
   cube_ok sample_ops (sample_lattice\<lparr>history := [Move ''x'' 0 1, Move ''z'' 1 6]\<rparr>) \<and>
   coords (commit_turns sample_ops
             (commit_turns sample_ops
                (sample_lattice\<lparr>history := [Move ''x'' 0 1, Move ''z'' 1 6]\<rparr>)
                (unit_turns [Move ''x'' 0 1, Move ''z'' 1 6]))
             (unit_turns (inverse_history
                (sample_lattice\<lparr>history := [Move ''x'' 0 1, Move ''z'' 1 6]\<rparr>))))
   = coords sample_lattice \<and>
   inverse_history (sample_lattice\<lparr>history := [Move ''x'' 0 1, Move ''z'' 1 6]\<rparr>)
   = [Move ''z'' 1 2, Move ''x'' 0 3]"
proof -
  let ?m = "sample_lattice\<lparr>history := [Move ''x'' 0 1, Move ''z'' 1 6]\<rparr>"
  have ok: "cube_ok sample_ops ?m" by (rule cube_ok_sample)
  show ?thesis
    using history_then_inverse_restores [OF float_ok_sample ok] float_ok_sample ok
    by (simp add: inverse_history_def inverse_spec_def inverse_count_def)
qed

section \<open>The shell cells\<close>

lemma distinct_concat_map:
  assumes "distinct xs"
    and "\<And>x. x \<in> set xs \<Longrightarrow> distinct (g x)"
    and "\<And>x y. x \<in> set xs \<Longrightarrow> y \<in> set xs \<Longrightarrow> x \<noteq> y \<Longrightarrow> set (g x) \<inter> set (g y) = {}"
  shows "distinct (concat (map g xs))"
  using assms
proof (induction xs)
  case Nil
  then show ?case by simp
next
  case (Cons a xs)
  have "distinct (concat (map g xs))"
    by (rule Cons.IH) (use Cons.prems in auto)
  moreover have "distinct (g a)" using Cons.prems(2) by simp
  moreover have "set (g a) \<inter> set (concat (map g xs)) = {}"
  proof -
    have "set (g a) \<inter> set (g y) = {}" if "y \<in> set xs" for y
      using Cons.prems(1) Cons.prems(3) [of a y] that by auto
    then show ?thesis by auto
  qed
  ultimately show ?case by simp
qed

lemma set_shell_cells: "set (shell_cells n) = {p. in_cube n p \<and> on_shell n p}"
  by (auto simp: shell_cells_def in_cube_def split: if_splits)

lemma distinct_shell_cells: "distinct (shell_cells n)"
  unfolding shell_cells_def
proof (rule distinct_concat_map, goal_cases)
  case 1
  show ?case by simp
next
  case (2 z)
  show ?case
  proof (rule distinct_concat_map, goal_cases)
    case 1
    show ?case by simp
  next
    case (2 y)
    show ?case by (rule distinct_concat_map) (auto split: if_splits)
  next
    case (3 y y')
    then show ?case by (auto split: if_splits)
  qed
next
  case (3 z z')
  then show ?case by (auto split: if_splits)
qed

lemma store_int16_in_cube:
  assumes "n \<le> 32768" and "in_cube n p"
  shows "store_int16 p = p"
  using assms by (cases p) (simp add: store_int16_def in_cube_def to_int16_id)

lemma construct_coords:
  assumes "construct fo n = Inr m" and "n \<le> 32768"
  shows "coords m = shell_cells n" and "solved m = shell_cells n" and "cube_n m = n"
    and "half m = rnd fo (of_int (n - 1) / 2)" and "2 \<le> n" and "history m = []"
    and "masks m = map (\<lambda>p. word_of_int (face_mask n p)) (shell_cells n)"
proof -
  have n2: "2 \<le> n" using assms(1) by (auto simp: construct_def split: if_splits)
  have "map store_int16 (shell_cells n) = shell_cells n"
    by (rule map_idI) (simp add: set_shell_cells store_int16_in_cube [OF assms(2)])
  then have m: "m = \<lparr> cube_n = n, half = rnd fo (of_int (n - 1) / 2), coords = shell_cells n,
                      masks = map (\<lambda>p. word_of_int (face_mask n p)) (shell_cells n),
                      solved = shell_cells n, history = [] \<rparr>"
    using assms n2 by (simp add: construct_def Let_def)
  show "coords m = shell_cells n" "solved m = shell_cells n" "cube_n m = n"
    "half m = rnd fo (of_int (n - 1) / 2)" "history m = []"
    "masks m = map (\<lambda>p. word_of_int (face_mask n p)) (shell_cells n)"
    by (simp_all add: m)
  show "2 \<le> n" by (rule n2)
qed

lemma lattice_inv_construct:
  assumes "construct fo n = Inr m" and "n \<le> 32768"
  shows "lattice_inv fo m"
  using construct_coords [OF assms] assms(2)
  by (simp add: lattice_inv_def cube_ok_def list_all_iff set_shell_cells distinct_shell_cells)

section \<open>A commit preserves the lattice invariant\<close>

lemma inj_image_subset_eq:
  assumes "finite A" and "f ` A \<subseteq> A" and "inj_on f A"
  shows "f ` A = A"
  using assms by (simp add: endo_inj_surj)

lemma lattice_inv_cube_ok: "lattice_inv fo m \<Longrightarrow> cube_ok fo m"
  by (simp add: lattice_inv_def)

lemma lattice_inv_rotate:
  assumes fo: "float_ok fo" and inv: "lattice_inv fo m" and d: "d = 1 \<or> d = - 1"
  shows "lattice_inv fo (rotate_slice_90 fo m ax idx d)"
proof -
  let ?n = "cube_n m"
  let ?g = "turn_slice ?n ax idx d"
  note ok = lattice_inv_cube_ok [OF inv]
  note ex = rotate_slice_exact [OF fo ok d, of ax idx]
  have inj: "inj ?g" by (rule inj_turn_slice [OF d])
  have s: "set (coords m) = {p. in_cube ?n p \<and> on_shell ?n p}"
    using inv by (simp add: lattice_inv_def set_shell_cells)
  have "?g ` set (coords m) = set (coords m)"
  proof (rule inj_image_subset_eq)
    show "finite (set (coords m))" by simp
    show "?g ` set (coords m) \<subseteq> set (coords m)"
      unfolding s by (auto simp: in_cube_turn_slice on_shell_turn_slice)
    show "inj_on ?g (set (coords m))" by (rule inj_on_subset [OF inj]) simp
  qed
  moreover have "distinct (map ?g (coords m))"
    using inv inj by (simp add: distinct_map lattice_inv_def inj_on_subset [OF inj])
  ultimately show ?thesis
    using inv cube_ok_rotate [OF fo ok d, of ax idx] unfolding ex
    by (simp add: lattice_inv_def)
qed

lemma lattice_inv_commit_turns:
  assumes fo: "float_ok fo"
  shows "lattice_inv fo m \<Longrightarrow> list_all (\<lambda>(ax, idx, d). d = 1 \<or> d = - 1) ts
         \<Longrightarrow> lattice_inv fo (commit_turns fo m ts)"
proof (induction ts arbitrary: m)
  case Nil
  then show ?case by simp
next
  case (Cons t ts)
  obtain ax idx d where t: "t = (ax, idx, d)" by (cases t)
  from Cons.prems have d: "d = 1 \<or> d = - 1" and rest: "list_all (\<lambda>(ax, idx, d). d = 1 \<or> d = - 1) ts"
    by (simp_all add: t)
  show ?case
    unfolding t commit_turns.simps
    by (rule Cons.IH [OF lattice_inv_rotate [OF fo Cons.prems(1) d] rest])
qed

lemma slice_set_eq:
  "slice_set m ax idx = {i. i < length (coords m) \<and> axis_coord ax (coords m ! i) = idx}"
  by (auto simp: slice_set_def slice_mask_axis_coord)

lemma rotate_slice_fields [simp]:
  "cube_n (rotate_slice_90 fo m ax idx d) = cube_n m"
  "half (rotate_slice_90 fo m ax idx d) = half m"
  "solved (rotate_slice_90 fo m ax idx d) = solved m"
  "masks (rotate_slice_90 fo m ax idx d) = masks m"
  "history (rotate_slice_90 fo m ax idx d) = history m"
  "length (coords (rotate_slice_90 fo m ax idx d)) = length (coords m)"
  by (simp_all add: rotate_slice_90_def Let_def slice_mask_axis_coord)

lemma commit_turns_fields [simp]:
  "cube_n (commit_turns fo m ts) = cube_n m"
  "half (commit_turns fo m ts) = half m"
  "solved (commit_turns fo m ts) = solved m"
  "masks (commit_turns fo m ts) = masks m"
  "history (commit_turns fo m ts) = history m"
  "length (coords (commit_turns fo m ts)) = length (coords m)"
  by (induction ts arbitrary: m) auto

lemma slice_set_rotate:
  assumes fo: "float_ok fo" and ok: "cube_ok fo m" and d: "d = 1 \<or> d = - 1"
  shows "slice_set (rotate_slice_90 fo m ax idx d) ax idx = slice_set m ax idx"
  unfolding rotate_slice_exact [OF fo ok d]
  by (auto simp: slice_set_eq)

lemma slice_points:
  "(\<lambda>i. coords m ! i) ` slice_set m ax idx = {p \<in> set (coords m). axis_coord ax p = idx}"
proof (rule set_eqI, rule iffI)
  fix p
  assume "p \<in> (\<lambda>i. coords m ! i) ` slice_set m ax idx"
  then obtain i where "i < length (coords m)" "axis_coord ax (coords m ! i) = idx"
    "p = coords m ! i"
    by (auto simp: slice_set_eq)
  then show "p \<in> {p \<in> set (coords m). axis_coord ax p = idx}" by simp
next
  fix p
  assume "p \<in> {p \<in> set (coords m). axis_coord ax p = idx}"
  then obtain i where i: "i < length (coords m)" "coords m ! i = p" and a: "axis_coord ax p = idx"
    by (auto simp: in_set_conv_nth)
  have "i \<in> slice_set m ax idx" using i a by (simp add: slice_set_eq)
  then show "p \<in> (\<lambda>i. coords m ! i) ` slice_set m ax idx"
    using i(2) by (intro image_eqI [where x = i]) simp_all
qed

lemma slice_points_rotate:
  assumes fo: "float_ok fo" and inv: "lattice_inv fo m" and d: "d = 1 \<or> d = - 1"
  shows "(\<lambda>i. coords (rotate_slice_90 fo m ax idx d) ! i) ` slice_set m ax idx
         = (\<lambda>i. coords m ! i) ` slice_set m ax idx"
proof -
  let ?n = "cube_n m"
  let ?g = "turn_slice ?n ax idx d"
  let ?T = "{p \<in> set (coords m). axis_coord ax p = idx}"
  note ok = lattice_inv_cube_ok [OF inv]
  have inj: "inj ?g" by (rule inj_turn_slice [OF d])
  have s: "set (coords m) = {p. in_cube ?n p \<and> on_shell ?n p}"
    using inv by (simp add: lattice_inv_def set_shell_cells)
  have T: "?g ` ?T = ?T"
  proof (rule inj_image_subset_eq)
    show "finite ?T" by simp
    show "?g ` ?T \<subseteq> ?T"
      unfolding s by (auto simp: in_cube_turn_slice on_shell_turn_slice)
    show "inj_on ?g ?T" by (rule inj_on_subset [OF inj]) simp
  qed
  have "(\<lambda>i. coords (rotate_slice_90 fo m ax idx d) ! i) ` slice_set m ax idx
        = ?g ` ((\<lambda>i. coords m ! i) ` slice_set m ax idx)"
    unfolding rotate_slice_exact [OF fo ok d] image_image
    by (rule image_cong [OF refl]) (simp add: slice_set_eq)
  then show ?thesis by (simp only: slice_points T)
qed

lemma outside_slice_rotate:
  assumes fo: "float_ok fo" and ok: "cube_ok fo m" and d: "d = 1 \<or> d = - 1"
    and i: "i < length (coords m)" "i \<notin> slice_set m ax idx"
  shows "coords (rotate_slice_90 fo m ax idx d) ! i = coords m ! i"
  using i unfolding rotate_slice_exact [OF fo ok d]
  by (simp add: slice_set_eq turn_slice_def)

text \<open>
  C2. \<open>m\<close> is any lattice that the constructor built for a size up to \<open>2^15\<close> and that
  went through any sequence \<open>ts\<close> of commits; \<open>m'\<close> is \<open>m\<close> after one more commit. In
  \<open>m'\<close> every cubelet lies in \<open>[0, n-1]^3\<close>, no two cubelets share a position, and the
  positions are those of the solved snapshot. The cubelets of the rotated slice occupy
  after the commit the same set of lattice points as before it, the slice holds the
  same cubelets, and the cubelets outside the slice did not move.
\<close>

theorem commit_keeps_lattice_invariant:
  assumes "float_ok fo" and "construct fo n = Inr m0" and "n \<le> 32768"
    and "list_all (\<lambda>(ax, idx, d). d = 1 \<or> d = - 1) ts"
    and "m = commit_turns fo m0 ts"
    and "d = 1 \<or> d = - 1"
    and "m' = rotate_slice_90 fo m ax idx d"
  shows "list_all (in_cube n) (coords m') \<and> distinct (coords m') \<and>
         set (coords m') = set (solved m') \<and> length (coords m') = length (solved m') \<and>
         solved m' = solved m0 \<and>
         (\<lambda>i. coords m' ! i) ` slice_set m ax idx = (\<lambda>i. coords m ! i) ` slice_set m ax idx \<and>
         slice_set m' ax idx = slice_set m ax idx \<and>
         (\<forall>i. i < length (coords m) \<and> i \<notin> slice_set m ax idx \<longrightarrow> coords m' ! i = coords m ! i)"
proof -
  note fo = assms(1)
  have inv0: "lattice_inv fo m0" by (rule lattice_inv_construct [OF assms(2,3)])
  have inv: "lattice_inv fo m"
    unfolding assms(5) by (rule lattice_inv_commit_turns [OF fo inv0 assms(4)])
  have inv': "lattice_inv fo m'"
    unfolding assms(7) by (rule lattice_inv_rotate [OF fo inv assms(6)])
  note ok = lattice_inv_cube_ok [OF inv]
  have n: "cube_n m' = n" and sv: "solved m' = solved m0"
    by (simp_all add: assms(5,7) construct_coords(3) [OF assms(2,3)])
  have "list_all (in_cube n) (coords m')" "distinct (coords m')"
    "set (coords m') = set (solved m')" "length (coords m') = length (solved m')"
    using inv' n by (simp_all add: lattice_inv_def cube_ok_def)
  moreover have "(\<lambda>i. coords m' ! i) ` slice_set m ax idx = (\<lambda>i. coords m ! i) ` slice_set m ax idx"
    unfolding assms(7) by (rule slice_points_rotate [OF fo inv assms(6)])
  moreover have "slice_set m' ax idx = slice_set m ax idx"
    unfolding assms(7) by (rule slice_set_rotate [OF fo ok assms(6)])
  moreover have "\<forall>i. i < length (coords m) \<and> i \<notin> slice_set m ax idx \<longrightarrow> coords m' ! i = coords m ! i"
    unfolding assms(7) by (simp add: outside_slice_rotate [OF fo ok assms(6)])
  ultimately show ?thesis using sv by (intro conjI)
qed

theorem commit_keeps_lattice_invariant_witness:
  "float_ok sample_ops \<and> construct sample_ops 2 = Inr sample_lattice \<and> (2::int) \<le> 32768 \<and>
   list_all (\<lambda>(ax, idx, d). d = 1 \<or> d = - 1) [(''x'', 0, 1::int)] \<and>
   ((1::int) = 1 \<or> (1::int) = - 1) \<and>
   distinct (coords (rotate_slice_90 sample_ops
               (commit_turns sample_ops sample_lattice [(''x'', 0, 1)]) ''y'' 1 1)) \<and>
   set (coords (rotate_slice_90 sample_ops
               (commit_turns sample_ops sample_lattice [(''x'', 0, 1)]) ''y'' 1 1))
   = set (solved sample_lattice)"
proof -
  have n: "(2::int) \<le> 32768" by simp
  have ts: "list_all (\<lambda>(ax, idx, d). d = 1 \<or> d = - 1) [(''x'', 0, 1::int)]" by simp
  have d: "(1::int) = 1 \<or> (1::int) = - 1" by simp
  show ?thesis
    using commit_keeps_lattice_invariant [OF float_ok_sample construct_sample n ts refl d refl,
        of "''y''" 1]
      float_ok_sample construct_sample
    by simp
qed

section \<open>Slice masks\<close>

lemma axis_coord_range:
  assumes "in_cube n p"
  shows "0 \<le> axis_coord ax p \<and> axis_coord ax p \<le> n - 1"
  using assms by (cases p) (auto simp: in_cube_def axis_coord_def)

text \<open>
  C8. On a lattice whose cubelets lie in \<open>[0, n-1]^3\<close>, for every axis string: the mask
  for an index is true exactly at the cubelets whose coordinate along the axis equals
  the index; the index sets of two distinct indices are disjoint; the index sets for
  \<open>0, ..., n-1\<close> together are all cubelets; and every cubelet is in the set of exactly
  one index of that range.
\<close>

theorem slice_masks_partition:
  assumes "list_all (in_cube (cube_n m)) (coords m)"
  shows "(\<forall>idx. slice_mask m ax idx = map (\<lambda>p. axis_coord ax p = idx) (coords m)) \<and>
         (\<forall>i j. i \<noteq> j \<longrightarrow> slice_set m ax i \<inter> slice_set m ax j = {}) \<and>
         (\<Union>idx \<in> {0..cube_n m - 1}. slice_set m ax idx) = {..<length (coords m)} \<and>
         (\<forall>c. c < length (coords m) \<longrightarrow>
              (\<exists>!idx. 0 \<le> idx \<and> idx \<le> cube_n m - 1 \<and> c \<in> slice_set m ax idx))"
proof -
  have r: "0 \<le> axis_coord ax (coords m ! c) \<and> axis_coord ax (coords m ! c) \<le> cube_n m - 1"
    if "c < length (coords m)" for c
    using assms that by (intro axis_coord_range) (simp add: list_all_length)
  have 1: "\<forall>idx. slice_mask m ax idx = map (\<lambda>p. axis_coord ax p = idx) (coords m)"
    by (simp add: slice_mask_axis_coord)
  have 2: "\<forall>i j. i \<noteq> j \<longrightarrow> slice_set m ax i \<inter> slice_set m ax j = {}"
    by (auto simp: slice_set_eq)
  have 3: "(\<Union>idx \<in> {0..cube_n m - 1}. slice_set m ax idx) = {..<length (coords m)}"
  proof (rule set_eqI, rule iffI)
    fix c
    assume "c \<in> (\<Union>idx \<in> {0..cube_n m - 1}. slice_set m ax idx)"
    then show "c \<in> {..<length (coords m)}" by (auto simp: slice_set_eq)
  next
    fix c
    assume "c \<in> {..<length (coords m)}"
    then have c: "c < length (coords m)" by simp
    then have "c \<in> slice_set m ax (axis_coord ax (coords m ! c))"
      by (simp add: slice_set_eq)
    moreover have "axis_coord ax (coords m ! c) \<in> {0..cube_n m - 1}"
      using r [OF c] by simp
    ultimately show "c \<in> (\<Union>idx \<in> {0..cube_n m - 1}. slice_set m ax idx)"
      by (rule UN_I [rotated])
  qed
  have 4: "\<forall>c. c < length (coords m) \<longrightarrow>
              (\<exists>!idx. 0 \<le> idx \<and> idx \<le> cube_n m - 1 \<and> c \<in> slice_set m ax idx)"
  proof (intro allI impI)
    fix c
    assume c: "c < length (coords m)"
    show "\<exists>!idx. 0 \<le> idx \<and> idx \<le> cube_n m - 1 \<and> c \<in> slice_set m ax idx"
    proof (rule ex1I [where a = "axis_coord ax (coords m ! c)"])
      show "0 \<le> axis_coord ax (coords m ! c) \<and> axis_coord ax (coords m ! c) \<le> cube_n m - 1 \<and>
            c \<in> slice_set m ax (axis_coord ax (coords m ! c))"
        using r [OF c] c by (simp add: slice_set_eq)
    next
      fix idx
      assume "0 \<le> idx \<and> idx \<le> cube_n m - 1 \<and> c \<in> slice_set m ax idx"
      then show "idx = axis_coord ax (coords m ! c)" by (simp add: slice_set_eq)
    qed
  qed
  from 1 2 3 4 show ?thesis by (intro conjI)
qed

theorem slice_masks_partition_witness:
  "list_all (in_cube (cube_n sample_lattice)) (coords sample_lattice) \<and>
   slice_mask sample_lattice ''y'' 1 = [False, False, True, True, False, False, True, True] \<and>
   slice_set sample_lattice ''y'' 0 \<inter> slice_set sample_lattice ''y'' 1 = {} \<and>
   (\<Union>idx \<in> {0..cube_n sample_lattice - 1}. slice_set sample_lattice ''y'' idx)
   = {..<length (coords sample_lattice)}"
proof -
  have h: "list_all (in_cube (cube_n sample_lattice)) (coords sample_lattice)"
    by (simp add: sample_lattice_def in_cube_def)
  have m: "map (\<lambda>p. axis_coord ''y'' p = 1) (coords sample_lattice)
           = [False, False, True, True, False, False, True, True]"
    by (simp add: sample_lattice_def axis_coord_def)
  have d: "(0::int) \<noteq> 1" by simp
  show ?thesis
    using slice_masks_partition [OF h, of "''y''"] h m d by metis
qed

section \<open>Face masks and display colours\<close>

lemma blend_count_positive:
  assumes "2 \<le> n" and "on_shell n p"
  shows "snd (snd (snd (blend_sums fo (uint (word_of_int (face_mask n p) :: 8 word))))) \<noteq> 0"
    and "(word_of_int (face_mask n p) :: 8 word) \<noteq> 0"
proof -
  obtain x y z where p: "p = (x, y, z)" by (cases p)
  show "snd (snd (snd (blend_sums fo (uint (word_of_int (face_mask n p) :: 8 word))))) \<noteq> 0"
    using assms unfolding p
    by (auto simp: on_shell_def face_mask_def Let_def U_def D_def F_def B_def L_def R_def
        blend_sums_def face_colors_def blend_step_def)
  show "(word_of_int (face_mask n p) :: 8 word) \<noteq> 0"
    using assms unfolding p
    by (auto simp: on_shell_def face_mask_def Let_def U_def D_def F_def B_def L_def R_def)
qed

lemma construct_masks:
  assumes "construct fo n = Inr m"
  shows "masks m = map (\<lambda>p. word_of_int (face_mask n p)) (shell_cells n)" and "2 \<le> n"
  using assms by (auto simp: construct_def Let_def split: if_splits)

text \<open>
  C10. Every cubelet of a lattice that the constructor built has a nonzero face mask,
  and \<^verbatim>\<open>blend_colors\<close> on that mask leaves through \<^verbatim>\<open>setRgbF\<close>, never through the dark
  fallback colour \<^verbatim>\<open>#111111\<close> of the branch \<^verbatim>\<open>cnt == 0\<close>.
\<close>

theorem cubelet_masks_nonzero:
  assumes "construct fo n = Inr m" and "i < length (masks m)"
  shows "masks m ! i \<noteq> 0 \<and>
         snd (snd (snd (blend_sums fo (uint (masks m ! i))))) \<noteq> 0 \<and>
         blend_colors fo (uint (masks m ! i)) \<noteq> FromHex 17 17 17 \<and>
         (\<exists>r g b. blend_colors fo (uint (masks m ! i)) = FromRgbF r g b 1)"
proof -
  note mk = construct_masks [OF assms(1)]
  have i: "i < length (shell_cells n)" using assms(2) by (simp add: mk(1))
  then have "shell_cells n ! i \<in> set (shell_cells n)" by simp
  then have sh: "on_shell n (shell_cells n ! i)" by (simp add: set_shell_cells)
  have e: "masks m ! i = word_of_int (face_mask n (shell_cells n ! i))"
    using i by (simp add: mk(1))
  note pos = blend_count_positive(1) [OF mk(2) sh, of fo, folded e]
    blend_count_positive(2) [OF mk(2) sh, folded e]
  obtain rs gs bs cnt where b: "blend_sums fo (uint (masks m ! i)) = (rs, gs, bs, cnt)"
    by (cases "blend_sums fo (uint (masks m ! i))")
  have cnt: "cnt \<noteq> 0" using pos(1) by (simp add: b)
  show ?thesis
    using pos(2) cnt by (simp add: blend_colors_def b Let_def)
qed

theorem cubelet_masks_nonzero_witness:
  "construct sample_ops 2 = Inr sample_lattice \<and> (3::nat) < length (masks sample_lattice) \<and>
   masks sample_lattice ! 3 = 41 \<and> masks sample_lattice ! 3 \<noteq> 0 \<and>
   blend_colors sample_ops (uint (masks sample_lattice ! 3)) \<noteq> FromHex 17 17 17"
proof -
  have i: "(3::nat) < length (masks sample_lattice)" by (simp add: sample_lattice_def)
  have v: "masks sample_lattice ! 3 = 41" by (simp add: sample_lattice_def)
  show ?thesis
    using cubelet_masks_nonzero [OF construct_sample i] construct_sample i v by simp
qed

section \<open>Seeded scrambling\<close>

lemma fnv_step:
  "((h XOR int ch) * 16777619) AND 4294967295
   = uint (((word_of_int h :: 32 word) XOR word_of_nat ch) * 16777619)"
proof -
  have m: "(4294967295::int) = mask 32" by (simp add: mask_eq_exp_minus_1)
  have x: "(word_of_int h :: 32 word) XOR word_of_nat ch = word_of_int (h XOR int ch)"
    by (simp add: of_int_xor_eq)
  have "uint (((word_of_int h :: 32 word) XOR word_of_nat ch) * 16777619)
        = uint (word_of_int ((h XOR int ch) * 16777619) :: 32 word)"
    unfolding x by simp
  also have "\<dots> = take_bit LENGTH(32) ((h XOR int ch) * 16777619)"
    by (rule uint_word_of_int_eq)
  also have "\<dots> = take_bit 32 ((h XOR int ch) * 16777619)"
    by simp
  also have "\<dots> = ((h XOR int ch) * 16777619) AND 4294967295"
    unfolding m by (simp only: take_bit_eq_mask)
  finally show ?thesis by simp
qed

lemma fnv_fold:
  "fold (\<lambda>ch h. ((h XOR int ch) * 16777619) AND 4294967295) t (uint w)
   = uint (fold (\<lambda>ch h. (h XOR word_of_nat ch) * 16777619) t (w :: 32 word))"
proof (induction t arbitrary: w)
  case Nil
  then show ?case by simp
next
  case (Cons c t)
  let ?f = "\<lambda>ch h. ((h XOR int ch) * 16777619) AND (4294967295::int)"
  let ?g = "\<lambda>ch (h :: 32 word). (h XOR word_of_nat ch) * 16777619"
  have s: "?f c (uint w) = uint (?g c w)"
    using fnv_step [of "uint w" c] by simp
  have "fold ?f (c # t) (uint w) = fold ?f t (?f c (uint w))" by simp
  also have "\<dots> = fold ?f t (uint (?g c w))" by (simp only: s)
  also have "\<dots> = uint (fold ?g t (?g c w))" by (rule Cons.IH)
  also have "\<dots> = uint (fold ?g (c # t) w)" by simp
  finally show ?case .
qed

lemma fnv1a_is_spec: "fnv1a t = uint (fnv1a_spec t)"
  using fnv_fold [of t 2166136261] by (simp add: fnv1a_def fnv1a_spec_def)

lemma rnd_sample: "rnd sample_ops v = v"
  by (simp add: sample_ops_def)

lemma new_scene_sample: "new_scene sample_ops 2 = Inr sample_scene"
  by (simp add: new_scene_def construct_sample sample_scene_def Let_def rnd_sample)

lemma scramble_seeded:
  "scramble ro m moves (Some sd) g1 = scramble ro m moves (Some sd) g2"
  by (simp add: scramble_def)

text \<open>
  C6, as stated, at the seed text \<^verbatim>\<open>" "\<close> (one space, code point 32): the text is not empty,
  but no seed is derived, and two runs from different generator states draw different
  moves. At \<^verbatim>\<open>" a"\<close> the seed is the hash of \<^verbatim>\<open>"a"\<close>, not of the text.
\<close>

theorem whitespace_seed_counterexample:
  "[32] \<noteq> ([] :: pystr) \<and> derive_seed [32] = None \<and>
   derive_seed [32, 97] = Some (fnv1a [97]) \<and> fnv1a [97] \<noteq> fnv1a [32, 97] \<and>
   map_sum id fst (scramble sample_rng sample_lattice 1 (derive_seed [32]) 0)
     = Inr [Move ''x'' 0 1] \<and>
   map_sum id fst (scramble sample_rng sample_lattice 1 (derive_seed [32]) 65536)
     = Inr [Move ''y'' 1 3]"
  by (simp add: derive_seed_def strip_def is_space_def fnv1a_def scramble_def sample_rng_def
      sample_lattice_def choice_def randint_def Let_def)

lemma derive_seed_empty: "strip text = [] \<Longrightarrow> derive_seed text = None"
  by (simp add: derive_seed_def)

lemma derive_seed_nonempty:
  "strip text \<noteq> [] \<Longrightarrow> derive_seed text = Some (uint (fnv1a_spec (strip text)))"
  by (simp add: derive_seed_def Let_def fnv1a_is_spec)

text \<open>
  C6, amended. When the seed text is not empty after \<^verbatim>\<open>strip()\<close>, the seed is the 32-bit
  FNV-1a hash of the stripped text, and \<^verbatim>\<open>scramble\<close> and \<^verbatim>\<open>on_scramble_clicked\<close> give the
  same result (sequence, history, queue and generator state) from any two prior states
  of the generator. When the text is empty after \<^verbatim>\<open>strip()\<close>, no seed is derived, and
  \<^verbatim>\<open>scramble\<close> runs as it does without a seed, from the prior state of the generator.
\<close>

theorem seeded_scramble_deterministic:
  "(strip text \<noteq> [] \<longrightarrow>
      derive_seed text = Some (uint (fnv1a_spec (strip text))) \<and>
      scramble ro m moves (derive_seed text) g1 = scramble ro m moves (derive_seed text) g2 \<and>
      on_scramble_clicked ro moves text s g1 = on_scramble_clicked ro moves text s g2) \<and>
   (strip text' = [] \<longrightarrow>
      derive_seed text' = None \<and>
      scramble ro m moves (derive_seed text') g = scramble ro m moves None g \<and>
      on_scramble_clicked ro moves text' s g =
        (case scramble ro (model s) moves None g of
           Inl e \<Rightarrow> Inl e
         | Inr (seq, m', g') \<Rightarrow> Inr (enqueue_all (s\<lparr>model := m'\<rparr>) seq, g')))"
proof (intro conjI impI)
  assume t: "strip text \<noteq> []"
  note d = derive_seed_nonempty [OF t]
  show "derive_seed text = Some (uint (fnv1a_spec (strip text)))" by (rule d)
  show "scramble ro m moves (derive_seed text) g1 = scramble ro m moves (derive_seed text) g2"
    unfolding d by (rule scramble_seeded)
  show "on_scramble_clicked ro moves text s g1 = on_scramble_clicked ro moves text s g2"
    unfolding on_scramble_clicked_def d
    by (simp add: scramble_seeded [of ro _ moves _ g1 g2])
next
  assume t: "strip text' = []"
  note d = derive_seed_empty [OF t]
  show "derive_seed text' = None" by (rule d)
  show "scramble ro m moves (derive_seed text') g = scramble ro m moves None g"
    by (simp add: d)
  show "on_scramble_clicked ro moves text' s g =
        (case scramble ro (model s) moves None g of
           Inl e \<Rightarrow> Inl e
         | Inr (seq, m', g') \<Rightarrow> Inr (enqueue_all (s\<lparr>model := m'\<rparr>) seq, g'))"
    by (simp add: on_scramble_clicked_def d)
qed

theorem seeded_scramble_deterministic_witness:
  "strip [97, 98, 99] \<noteq> [] \<and>
   derive_seed [97, 98, 99] = Some 440920331 \<and>
   on_scramble_clicked sample_rng 20 [97, 98, 99] sample_scene 0
     = on_scramble_clicked sample_rng 20 [97, 98, 99] sample_scene 7 \<and>
   strip [32, 9] = [] \<and> derive_seed [32, 9] = None \<and>
   scramble sample_rng sample_lattice 20 (derive_seed [32, 9]) 7
     = scramble sample_rng sample_lattice 20 None 7"
proof -
  have h: "strip [97, 98, 99] \<noteq> []" by (simp add: strip_def is_space_def)
  have v: "strip [97, 98, 99] = [97, 98, 99]" by (simp add: strip_def is_space_def)
  have e: "strip [32, 9] = []" by (simp add: strip_def is_space_def)
  have f: "uint (fnv1a_spec [97, 98, 99]) = 440920331"
    by (simp add: fnv1a_is_spec [symmetric] fnv1a_def)
  show ?thesis
    using seeded_scramble_deterministic
      [of "[97, 98, 99]" sample_rng sample_lattice 20 0 7 sample_scene "[32, 9]" 7] h e
    by (simp add: v f)
qed

section \<open>Frame count and interpolation fraction\<close>

lemma py_int_nonneg: "0 \<le> q \<Longrightarrow> py_int q = \<lfloor>q\<rfloor>"
  by (simp add: py_int_def)

lemma py_int_neg: "q < 0 \<Longrightarrow> py_int q = \<lceil>q\<rceil>"
  by (simp add: py_int_def)

lemma fmax_sample: "fmax sample_ops = 2 ^ 1024 - 2 ^ 971"
  by (simp add: sample_ops_def)

lemmas frame_defs =
  total_frames_def int_div_float_def int_to_float_def store_double_def float_to_int_def

lemma total_frames_finite:
  assumes "v \<noteq> 0" and "\<bar>rnd fo (of_int fpt)\<bar> \<le> fmax fo"
    and "\<bar>rnd fo (rnd fo (of_int fpt) / v)\<bar> \<le> fmax fo"
  shows "total_frames fo fpt (Finite v) = Inr (max 1 (py_int (rnd fo (rnd fo (of_int fpt) / v))))"
  using assms by (auto simp: frame_defs Let_def)

lemma total_frames_overflow:
  assumes "v \<noteq> 0" and "\<bar>rnd fo (of_int fpt)\<bar> \<le> fmax fo"
    and "fmax fo < \<bar>rnd fo (rnd fo (of_int fpt) / v)\<bar>"
  shows "total_frames fo fpt (Finite v) = Inl OverflowError"
  using assms by (auto simp: frame_defs Let_def)


text \<open>
  C7, as stated, at the slider value \<open>25\<close>: the speed is \<open>409/196\<close> (about \<open>2.09\<close>), the
  quotient \<open>12 / speed\<close> is about \<open>5.75\<close>; the code takes \<open>5\<close> frames, rounding gives \<open>6\<close>.
\<close>

theorem frame_count_counterexample:
  "on_speed_changed sample_ops 25 sample_scene
     = Inr (sample_scene\<lparr>speed := Finite (409 / 196)\<rparr>) \<and>
   total_frames sample_ops (frames_per_turn sample_scene) (Finite (409 / 196)) = Inr 5 \<and>
   max 1 (round (of_int (frames_per_turn sample_scene) / (409 / 196) :: real)) = 6"
  by (simp add: on_speed_changed_def frame_defs rnd_sample fmax_sample sample_scene_def
      py_int_def round_def Let_def)

text \<open>
  C7, amended. \<open>q\<close> is the computed quotient \<open>frames_per_turn / speed\<close>. For every
  positive speed at which \<open>q\<close> is a finite double, the frame count exists, is at least
  \<open>1\<close>, and is \<open>max(1, int(q))\<close>, where \<^verbatim>\<open>int\<close> cuts the fraction off: it is the floor of a
  quotient that is not negative and the ceiling of a negative one; the interpolation
  fraction at a frame is the computed quotient of the frame by \<open>max(1, total_frames - 1)\<close>,
  whose divisor is at least \<open>1\<close>. For a positive speed so small that \<open>q\<close> exceeds the
  largest double, the quotient is an infinity, \<^verbatim>\<open>int\<close> raises \<^verbatim>\<open>OverflowError\<close> and there is
  no frame count.
\<close>

theorem frame_count_truncates:
  "(0 < v \<and> \<bar>rnd fo (of_int fpt)\<bar> \<le> fmax fo \<and>
    \<bar>rnd fo (rnd fo (of_int fpt) / v)\<bar> \<le> fmax fo \<longrightarrow>
      (\<exists>tf. total_frames fo fpt (Finite v) = Inr tf \<and> 1 \<le> tf \<and>
            tf = max 1 (py_int (rnd fo (rnd fo (of_int fpt) / v))) \<and>
            (0 \<le> rnd fo (rnd fo (of_int fpt) / v) \<longrightarrow>
               py_int (rnd fo (rnd fo (of_int fpt) / v)) = \<lfloor>rnd fo (rnd fo (of_int fpt) / v)\<rfloor>) \<and>
            (rnd fo (rnd fo (of_int fpt) / v) < 0 \<longrightarrow>
               py_int (rnd fo (rnd fo (of_int fpt) / v)) = \<lceil>rnd fo (rnd fo (of_int fpt) / v)\<rceil>) \<and>
            interp_fraction fo fr tf = rnd fo (of_int fr / of_int (max 1 (tf - 1))) \<and>
            1 \<le> max 1 (tf - 1))) \<and>
   (0 < v' \<and> \<bar>rnd fo (of_int fpt')\<bar> \<le> fmax fo \<and>
    fmax fo < \<bar>rnd fo (rnd fo (of_int fpt') / v')\<bar> \<longrightarrow>
      total_frames fo fpt' (Finite v') = Inl OverflowError)"
proof (intro conjI impI)
  assume a: "0 < v \<and> \<bar>rnd fo (of_int fpt)\<bar> \<le> fmax fo \<and>
             \<bar>rnd fo (rnd fo (of_int fpt) / v)\<bar> \<le> fmax fo"
  then have "total_frames fo fpt (Finite v)
             = Inr (max 1 (py_int (rnd fo (rnd fo (of_int fpt) / v))))"
    by (intro total_frames_finite) simp_all
  then show "\<exists>tf. total_frames fo fpt (Finite v) = Inr tf \<and> 1 \<le> tf \<and>
            tf = max 1 (py_int (rnd fo (rnd fo (of_int fpt) / v))) \<and>
            (0 \<le> rnd fo (rnd fo (of_int fpt) / v) \<longrightarrow>
               py_int (rnd fo (rnd fo (of_int fpt) / v)) = \<lfloor>rnd fo (rnd fo (of_int fpt) / v)\<rfloor>) \<and>
            (rnd fo (rnd fo (of_int fpt) / v) < 0 \<longrightarrow>
               py_int (rnd fo (rnd fo (of_int fpt) / v)) = \<lceil>rnd fo (rnd fo (of_int fpt) / v)\<rceil>) \<and>
            interp_fraction fo fr tf = rnd fo (of_int fr / of_int (max 1 (tf - 1))) \<and>
            1 \<le> max 1 (tf - 1)"
    by (simp add: interp_fraction_def py_int_nonneg py_int_neg)
next
  assume "0 < v' \<and> \<bar>rnd fo (of_int fpt')\<bar> \<le> fmax fo \<and>
          fmax fo < \<bar>rnd fo (rnd fo (of_int fpt') / v')\<bar>"
  then show "total_frames fo fpt' (Finite v') = Inl OverflowError"
    by (intro total_frames_overflow) simp_all
qed

theorem frame_count_truncates_witness:
  "(0::real) < 409 / 196 \<and> \<bar>rnd sample_ops (of_int 12)\<bar> \<le> fmax sample_ops \<and>
   \<bar>rnd sample_ops (rnd sample_ops (of_int 12) / (409 / 196))\<bar> \<le> fmax sample_ops \<and>
   total_frames sample_ops 12 (Finite (409 / 196)) = Inr 5 \<and>
   interp_fraction sample_ops 2 5 = 1 / 2 \<and>
   (0::real) < 1 / 2 ^ 1074 \<and>
   fmax sample_ops < \<bar>rnd sample_ops (rnd sample_ops (of_int 12) / (1 / 2 ^ 1074))\<bar> \<and>
   total_frames sample_ops 12 (Finite (1 / 2 ^ 1074)) = Inl OverflowError"
proof -
  have h: "(0::real) < 409 / 196 \<and> \<bar>rnd sample_ops (of_int 12)\<bar> \<le> fmax sample_ops \<and>
           \<bar>rnd sample_ops (rnd sample_ops (of_int 12) / (409 / 196))\<bar> \<le> fmax sample_ops"
    by (simp add: rnd_sample fmax_sample)
  have h': "(0::real) < 1 / 2 ^ 1074 \<and> \<bar>rnd sample_ops (of_int 12)\<bar> \<le> fmax sample_ops \<and>
            fmax sample_ops < \<bar>rnd sample_ops (rnd sample_ops (of_int 12) / (1 / 2 ^ 1074))\<bar>"
    by (simp add: rnd_sample fmax_sample)
  have v: "max 1 (py_int (rnd sample_ops (rnd sample_ops (of_int 12) / (409 / 196)))) = 5"
    by (simp add: rnd_sample py_int_def)
  have i: "rnd sample_ops (of_int 2 / of_int (max 1 (5 - 1))) = 1 / 2"
    by (simp add: rnd_sample)
  note t = frame_count_truncates [of "409 / 196" sample_ops 12 2 "1 / 2 ^ 1074" 12]
  from t h obtain tf where "total_frames sample_ops 12 (Finite (409 / 196)) = Inr tf"
    and "tf = max 1 (py_int (rnd sample_ops (rnd sample_ops (of_int 12) / (409 / 196))))"
    and "interp_fraction sample_ops 2 tf = rnd sample_ops (of_int 2 / of_int (max 1 (tf - 1)))"
    by blast
  then have a: "total_frames sample_ops 12 (Finite (409 / 196)) = Inr 5 \<and>
                interp_fraction sample_ops 2 5 = 1 / 2"
    using v i by simp
  from t h' have b: "total_frames sample_ops 12 (Finite (1 / 2 ^ 1074)) = Inl OverflowError"
    by blast
  from h h' a b show ?thesis by blast
qed

section \<open>Arguments outside the documented ranges\<close>

lemma construct_small: "n < 2 \<Longrightarrow> construct fo n = Inl AssertionError"
  by (simp add: construct_def)

lemma new_scene_small: "n < 2 \<Longrightarrow> new_scene fo n = Inl AssertionError"
  by (simp add: new_scene_def construct_small)

lemma construct_large: "2 \<le> n \<Longrightarrow> n \<le> 32768 \<Longrightarrow> \<exists>m. construct fo n = Inr m"
  by (simp add: construct_def Let_def)

lemma construct_too_large: "32768 < n \<Longrightarrow> construct fo n = Inl OverflowError"
  by (simp add: construct_def)

lemma slice_mask_other_axis:
  "ax \<noteq> ''x'' \<Longrightarrow> ax \<noteq> ''y'' \<Longrightarrow> slice_mask m ax idx = slice_mask m ''z'' idx"
  by (simp add: slice_mask_def)

lemma rotate_point_other_axis:
  "ax \<noteq> ''x'' \<Longrightarrow> ax \<noteq> ''y'' \<Longrightarrow> rotate_point fo h ax c s p = rotate_point fo h ''z'' c s p"
  by (cases p) (simp add: rotate_point_def)

lemma rotate_other_axis:
  "ax \<noteq> ''x'' \<Longrightarrow> ax \<noteq> ''y'' \<Longrightarrow>
   rotate_slice_90 fo m ax idx d = rotate_slice_90 fo m ''z'' idx d"
proof -
  assume a: "ax \<noteq> ''x''" "ax \<noteq> ''y''"
  have "rotate_point fo (half m) ax = rotate_point fo (half m) ''z''"
    by (intro ext) (rule rotate_point_other_axis [OF a])
  then show ?thesis
    by (simp only: rotate_slice_90_def slice_mask_other_axis [OF a])
qed

lemma rotate_index_outside:
  assumes "list_all (in_cube (cube_n m)) (coords m)" and "idx < 0 \<or> cube_n m \<le> idx"
  shows "rotate_slice_90 fo m ax idx d = m" and "list_all (\<lambda>b. \<not> b) (slice_mask m ax idx)"
proof -
  have ne: "axis_coord ax p \<noteq> idx" if "p \<in> set (coords m)" for p
  proof -
    have "in_cube (cube_n m) p" using assms(1) that by (simp add: list_all_iff)
    from axis_coord_range [OF this, of ax] assms(2) show ?thesis by auto
  qed
  have "map (\<lambda>p. if axis_coord ax p = idx
                 then rotate_point fo (half m) ax (fcos fo (quarter_angle fo d))
                        (fsin fo (quarter_angle fo d)) p
                 else p) (coords m) = coords m"
    by (rule map_idI) (simp add: ne)
  then show "rotate_slice_90 fo m ax idx d = m"
    by (simp add: rotate_slice_90_def Let_def slice_mask_axis_coord map_zip_select)
  show "list_all (\<lambda>b. \<not> b) (slice_mask m ax idx)"
    by (simp add: slice_mask_axis_coord list_all_iff ne)
qed

lemma scramble_no_moves:
  "moves < 1 \<Longrightarrow>
   scramble ro m moves seed g
   = Inr ([], m, case seed of None \<Rightarrow> g | Some sd \<Rightarrow> seed_rng ro sd)"
  by (simp add: scramble_def)

lemma on_scramble_no_moves:
  "moves < 1 \<Longrightarrow>
   on_scramble_clicked ro moves text s g
   = Inr (s, case derive_seed text of None \<Rightarrow> g | Some sd \<Rightarrow> seed_rng ro sd)"
  by (simp add: on_scramble_clicked_def scramble_no_moves enqueue_all_def)

text \<open>
  C5, as stated, on the scene of size \<open>2\<close>: the call \<^verbatim>\<open>enqueue_move('w', 7, 1)\<close>, with an
  axis that is none of \<^verbatim>\<open>x\<close>, \<^verbatim>\<open>y\<close>, \<^verbatim>\<open>z\<close> and an index outside \<open>[0, 1]\<close>, is not rejected: it
  changes the queue and the history. The mask for the axis \<^verbatim>\<open>'w'\<close> is that for \<^verbatim>\<open>'z'\<close>, and
  \<^verbatim>\<open>scramble(0)\<close> returns an empty sequence.
\<close>

theorem unchecked_arguments_counterexample:
  "queue (enqueue_move sample_scene ''w'' 7 1 True) = [(''w'', 7, 1)] \<and>
   queue sample_scene = [] \<and>
   history (model (enqueue_move sample_scene ''w'' 7 1 True)) = [Move ''w'' 7 1] \<and>
   history (model sample_scene) = [] \<and>
   slice_mask sample_lattice ''w'' 1 = slice_mask sample_lattice ''z'' 1 \<and>
   scramble sample_rng sample_lattice 0 None 5 = Inr ([], sample_lattice, 5)"
  by (simp add: enqueue_move_queue enqueue_move_history slice_mask_def scramble_def
      sample_scene_def sample_lattice_def)

text \<open>
  C5, amended. The constructor fails on its assertion for \<open>n < 2\<close>, and so does the
  construction of the scene; it succeeds for every \<open>n\<close> from \<open>2\<close> to \<open>32768\<close>, and raises
  beyond, where the coordinates do not fit the array. Nothing else is checked: an axis
  other than \<^verbatim>\<open>'x'\<close> and \<^verbatim>\<open>'y'\<close> is treated as \<^verbatim>\<open>'z'\<close> by the mask and by the commit; an index
  outside \<open>[0, n-1]\<close> selects no cubelet, so a commit with it leaves the lattice as it
  is; \<^verbatim>\<open>enqueue_move\<close> queues and records whatever axis and index it is given; and
  \<^verbatim>\<open>scramble\<close> with a count below \<open>1\<close> returns the empty sequence and leaves the lattice
  with its history, and the scene with its queue, as they are, while a seed, if one is
  given, still reseeds the generator.
\<close>

theorem only_construction_is_checked:
  "(n < 2 \<longrightarrow> construct fo n = Inl AssertionError \<and> new_scene fo n = Inl AssertionError) \<and>
   (2 \<le> n' \<and> n' \<le> 32768 \<longrightarrow> (\<exists>m'. construct fo n' = Inr m')) \<and>
   (32768 < n'' \<longrightarrow> construct fo n'' = Inl OverflowError) \<and>
   (ax \<noteq> ''x'' \<and> ax \<noteq> ''y'' \<longrightarrow>
      slice_mask m ax idx = slice_mask m ''z'' idx \<and>
      rotate_slice_90 fo m ax idx d = rotate_slice_90 fo m ''z'' idx d) \<and>
   (list_all (in_cube (cube_n m)) (coords m) \<and> (idx' < 0 \<or> cube_n m \<le> idx') \<longrightarrow>
      rotate_slice_90 fo m ax' idx' d = m \<and> list_all (\<lambda>b. \<not> b) (slice_mask m ax' idx')) \<and>
   queue (enqueue_move s ax' idx' k record) = queue s @ replicate (nat (k mod 4)) (ax', idx', 1) \<and>
   history (model (enqueue_move s ax' idx' k True))
     = history (model s) @ [Move ax' idx' (k mod 4)] \<and>
   (moves < 1 \<longrightarrow>
      scramble ro m moves seed g
        = Inr ([], m, case seed of None \<Rightarrow> g | Some sd \<Rightarrow> seed_rng ro sd) \<and>
      on_scramble_clicked ro moves text s g
        = Inr (s, case derive_seed text of None \<Rightarrow> g | Some sd \<Rightarrow> seed_rng ro sd))"
proof (intro conjI impI)
  show "construct fo n = Inl AssertionError" if "n < 2" by (rule construct_small [OF that])
  show "new_scene fo n = Inl AssertionError" if "n < 2" by (rule new_scene_small [OF that])
  show "\<exists>m'. construct fo n' = Inr m'" if "2 \<le> n' \<and> n' \<le> 32768"
    using that by (intro construct_large) simp_all
  show "construct fo n'' = Inl OverflowError" if "32768 < n''"
    by (rule construct_too_large [OF that])
  show "slice_mask m ax idx = slice_mask m ''z'' idx" if "ax \<noteq> ''x'' \<and> ax \<noteq> ''y''"
    using that by (intro slice_mask_other_axis) simp_all
  show "rotate_slice_90 fo m ax idx d = rotate_slice_90 fo m ''z'' idx d"
    if "ax \<noteq> ''x'' \<and> ax \<noteq> ''y''"
    using that by (intro rotate_other_axis) simp_all
  show "rotate_slice_90 fo m ax' idx' d = m"
    if "list_all (in_cube (cube_n m)) (coords m) \<and> (idx' < 0 \<or> cube_n m \<le> idx')"
    using that by (intro rotate_index_outside(1)) simp_all
  show "list_all (\<lambda>b. \<not> b) (slice_mask m ax' idx')"
    if "list_all (in_cube (cube_n m)) (coords m) \<and> (idx' < 0 \<or> cube_n m \<le> idx')"
    using that by (intro rotate_index_outside(2)) simp_all
  show "queue (enqueue_move s ax' idx' k record)
        = queue s @ replicate (nat (k mod 4)) (ax', idx', 1)"
    by (rule enqueue_move_queue)
  show "history (model (enqueue_move s ax' idx' k True))
        = history (model s) @ [Move ax' idx' (k mod 4)]"
    by (simp add: enqueue_move_history)
  show "scramble ro m moves seed g
        = Inr ([], m, case seed of None \<Rightarrow> g | Some sd \<Rightarrow> seed_rng ro sd)" if "moves < 1"
    by (rule scramble_no_moves [OF that])
  show "on_scramble_clicked ro moves text s g
        = Inr (s, case derive_seed text of None \<Rightarrow> g | Some sd \<Rightarrow> seed_rng ro sd)"
    if "moves < 1"
    by (rule on_scramble_no_moves [OF that])
qed

theorem only_construction_is_checked_witness:
  "(1::int) < 2 \<and> construct sample_ops 1 = Inl AssertionError \<and>
   (2::int) \<le> 2 \<and> (2::int) \<le> 32768 \<and> (\<exists>m'. construct sample_ops 2 = Inr m') \<and>
   (32768::int) < 32769 \<and> construct sample_ops 32769 = Inl OverflowError \<and>
   ''w'' \<noteq> ''x'' \<and> ''w'' \<noteq> ''y'' \<and>
   slice_mask sample_lattice ''w'' 1 = slice_mask sample_lattice ''z'' 1 \<and>
   list_all (in_cube (cube_n sample_lattice)) (coords sample_lattice) \<and>
   ((5::int) < 0 \<or> cube_n sample_lattice \<le> 5) \<and>
   rotate_slice_90 sample_ops sample_lattice ''x'' 5 1 = sample_lattice \<and>
   (0::int) < 1 \<and>
   scramble sample_rng sample_lattice 0 (Some 7) 5 = Inr ([], sample_lattice, 7) \<and>
   on_scramble_clicked sample_rng 0 [] sample_scene 5 = Inr (sample_scene, 5)"
proof -
  have c: "list_all (in_cube (cube_n sample_lattice)) (coords sample_lattice)"
    by (simp add: sample_lattice_def in_cube_def)
  have i: "(5::int) < 0 \<or> cube_n sample_lattice \<le> 5" by (simp add: sample_lattice_def)
  have sd: "seed_rng sample_rng 7 = 7" by (simp add: sample_rng_def)
  have ds: "derive_seed [] = None" by (simp add: derive_seed_def strip_def)
  show ?thesis
    using only_construction_is_checked [of 1 sample_ops 2 32769 "''w''" sample_lattice 1 1 5 "''x''"
        sample_scene 1 True 0 sample_rng "Some 7" 5 "[]"] c i
    by (simp add: sd ds)
qed

section \<open>The turn scheduler\<close>

lemma start_next_turn_fields [simp]:
  "model (start_next_turn s) = model s"
  "frames_per_turn (start_next_turn s) = frames_per_turn s"
  "speed (start_next_turn s) = speed s"
  "cubelets (start_next_turn s) = cubelets s"
  "scene_half (start_next_turn s) = scene_half s"
  by (simp_all add: start_next_turn_def split: list.splits prod.splits)

lemma animating_start_next_turn [simp]: "animating (start_next_turn s) \<longleftrightarrow> queue s \<noteq> []"
  by (simp add: start_next_turn_def split: list.splits prod.splits)

lemma pending_start_next_turn [simp]: "pending (start_next_turn s) = queue s"
  by (simp add: start_next_turn_def pending_def split: list.splits prod.splits)
















lemma scene_ok_new_scene:
  assumes "new_scene fo n = Inr s" and "\<not> isl (total_frames fo 12 (Finite 1))"
  shows "scene_ok fo s"
proof -
  obtain m where m: "construct fo n = Inr m"
    using assms(1) by (cases "construct fo n") (auto simp: new_scene_def)
  have "length (masks m) = length (coords m)"
    using m by (auto simp: construct_def Let_def split: if_splits)
  then show ?thesis
    using assms m by (auto simp: new_scene_def Let_def scene_ok_def)
qed

lemma scene_ok_enqueue_move:
  "scene_ok fo s \<Longrightarrow> scene_ok fo (enqueue_move s ax idx k record)"
  by (auto simp: scene_ok_def enqueue_move_def Let_def split: option.splits)







end
